theory Spec2Isabelle
  imports Main "HOL-Library.Multiset"
begin

section \<open>Strings and the string methods the extractor calls\<close>

text \<open>
  The source is \<^verbatim>\<open>src/services/geminiService.ts\<close>. A source string is modelled as a
  \<^typ>\<open>string\<close>, one \<^typ>\<open>char\<close> per code unit, so the model covers the texts whose code
  units lie below 256. The white space of \<^verbatim>\<open>\s\<close> and of \<^verbatim>\<open>trim()\<close> is the same set in the
  source language; below 256 it is TAB, LF, VT, FF, CR, SPACE and NBSP.
\<close>

definition isSpace :: "char \<Rightarrow> bool" where
  "isSpace c = (c \<in> set [CHR 0x09, CHR 0x0A, CHR 0x0B, CHR 0x0C, CHR 0x0D, CHR 0x20, CHR 0xA0])"

text \<open>\<^verbatim>\<open>\w\<close> is \<^verbatim>\<open>[A-Za-z0-9_]\<close>.\<close>

definition isWord :: "char \<Rightarrow> bool" where
  "isWord c = (let n = (of_char c :: nat) in
     (48 \<le> n \<and> n \<le> 57) \<or> (65 \<le> n \<and> n \<le> 90) \<or> (97 \<le> n \<and> n \<le> 122) \<or> n = 95)"

text \<open>\<^verbatim>\<open>.\<close> matches every code unit but a line terminator (LF and CR below 256).\<close>

definition isLineTerminator :: "char \<Rightarrow> bool" where
  "isLineTerminator c = (c = CHR 0x0A \<or> c = CHR 0x0D)"

text \<open>\<^verbatim>\<open>s.trim()\<close>\<close>

definition trim :: "string \<Rightarrow> string" where
  "trim s = rev (dropWhile isSpace (rev (dropWhile isSpace s)))"

text \<open>\<^verbatim>\<open>s.split(c)\<close> for a one-character separator: never an empty array.\<close>

fun split :: "char \<Rightarrow> string \<Rightarrow> string list" where
  "split c [] = [[]]"
| "split c (x # xs) =
     (if x = c then [] # split c xs
      else (case split c xs of [] \<Rightarrow> [[x]] | y # ys \<Rightarrow> (x # y) # ys))"

text \<open>\<^verbatim>\<open>s.startsWith(p)\<close>, \<^verbatim>\<open>s.endsWith(p)\<close>, \<^verbatim>\<open>s.includes(p)\<close>\<close>

definition startsWith :: "string \<Rightarrow> string \<Rightarrow> bool" where
  "startsWith s p = (take (length p) s = p)"

definition endsWith :: "string \<Rightarrow> string \<Rightarrow> bool" where
  "endsWith s p = (length p \<le> length s \<and> drop (length s - length p) s = p)"

definition includesStr :: "string \<Rightarrow> string \<Rightarrow> bool" where
  "includesStr s p = list_ex (\<lambda>i. startsWith (drop i s) p) [0..<Suc (length s)]"

text \<open>\<^verbatim>\<open>(line.match(/c/g) || []).length\<close> for a one-character pattern: the number of
  occurrences of the character.\<close>

definition matchCount :: "char \<Rightarrow> string \<Rightarrow> nat" where
  "matchCount c line = length (filter (\<lambda>x. x = c) line)"

text \<open>A template literal prints an integer of magnitude below \<open>10^21\<close> in decimal, and
  \<open>showNat\<close> and \<open>showInt\<close> are that. From \<open>10^21\<close> on the source language prints an
  exponent (\<open>1e+21\<close>) with the digits of the floating-point value, which \<open>showInt\<close> does
  not follow: only the depth could be that large, it is printed in the summary alone, and
  no property below says what the summary prints for the depth unless the depth is a
  given small number.\<close>

fun digitsOf :: "nat \<Rightarrow> nat \<Rightarrow> string" where
  "digitsOf 0 n = []"
| "digitsOf (Suc k) n =
     (if n < 10 then [char_of (48 + n)]
      else digitsOf k (n div 10) @ [char_of (48 + n mod 10)])"

definition showNat :: "nat \<Rightarrow> string" where
  "showNat n = digitsOf (Suc n) n"

definition showInt :: "int \<Rightarrow> string" where
  "showInt i = (if i < 0 then CHR ''-'' # showNat (nat (- i)) else showNat (nat i))"

section \<open>Regular expressions\<close>

text \<open>
  The patterns of the source are written as terms of \<open>regex\<close>, and matched the way the
  source language's backtracking matcher does: alternatives left to right, quantifiers
  greedy. \<open>rmatch r st\<close> lists every way \<open>r\<close> can match at the state \<open>st\<close>, in the order
  in which the matcher tries them; the first one that lets the rest of the pattern match
  is the match. A state is the position in the subject, the text from there on, and the
  groups captured so far (latest first). The patterns of the source have no flags, no
  group inside a repetition and no repeated part that matches the empty string, so
  \<open>Plus\<close> is one round and then the greedy repetition, and groups are never reset.
\<close>

datatype cclass = Space | NonSpace | Word | Dot | OneOf string | Union cclass cclass

fun inClass :: "cclass \<Rightarrow> char \<Rightarrow> bool" where
  "inClass Space c = isSpace c"
| "inClass NonSpace c = (\<not> isSpace c)"
| "inClass Word c = isWord c"
| "inClass Dot c = (\<not> isLineTerminator c)"
| "inClass (OneOf s) c = (c \<in> set s)"
| "inClass (Union a b) c = (inClass a c \<or> inClass b c)"

datatype regex =
    Lit string
  | Cls cclass
  | Bol
  | Eol
  | Seq regex regex
  | Alt regex regex
  | Opt regex
  | Star regex
  | Plus regex
  | Grp nat regex

type_synonym mstate = "nat \<times> string \<times> (nat \<times> string) list"

text \<open>Greedy repetition: one more round first (a round that consumes nothing is refused,
  as the matcher of the source language refuses it), then stopping here.\<close>

function iter :: "(mstate \<Rightarrow> mstate list) \<Rightarrow> mstate \<Rightarrow> mstate list" where
  "iter f st =
     concat (map (iter f)
       (filter (\<lambda>st'. length (fst (snd st')) < length (fst (snd st))) (f st))) @ [st]"
  by pat_completeness auto
termination
  by (relation "measure (\<lambda>(f, st). length (fst (snd st)))") auto

declare iter.simps [simp del]

primrec rmatch :: "regex \<Rightarrow> mstate \<Rightarrow> mstate list" where
  "rmatch (Lit s) st =
     (case st of (p, r, c) \<Rightarrow>
        if startsWith r s then [(p + length s, drop (length s) r, c)] else [])"
| "rmatch (Cls k) st =
     (case st of (p, r, c) \<Rightarrow>
        (case r of [] \<Rightarrow> [] | x # xs \<Rightarrow> if inClass k x then [(Suc p, xs, c)] else []))"
| "rmatch Bol st = (case st of (p, r, c) \<Rightarrow> if p = 0 then [st] else [])"
| "rmatch Eol st = (case st of (p, r, c) \<Rightarrow> if r = [] then [st] else [])"
| "rmatch (Seq a b) st = concat (map (rmatch b) (rmatch a st))"
| "rmatch (Alt a b) st = rmatch a st @ rmatch b st"
| "rmatch (Opt a) st = rmatch a st @ [st]"
| "rmatch (Star a) st = iter (rmatch a) st"
| "rmatch (Plus a) st = concat (map (iter (rmatch a)) (rmatch a st))"
| "rmatch (Grp n a) st =
     map (\<lambda>st'. case st' of (p', r', c') \<Rightarrow>
            (p', r', (n, take (p' - fst st) (fst (snd st))) # c'))
         (rmatch a st)"

text \<open>One attempt of the matcher at index \<open>i\<close> of the subject: the captures of the first
  way to match, if there is one.\<close>

definition execAt :: "regex \<Rightarrow> string \<Rightarrow> nat \<Rightarrow> (nat \<times> string) list option" where
  "execAt r s i = (case rmatch r (i, drop i s, []) of [] \<Rightarrow> None | st # _ \<Rightarrow> Some (snd (snd st)))"

text \<open>\<^verbatim>\<open>s.search(r)\<close>: the least index at which \<open>r\<close> matches; \<open>None\<close> stands for \<open>-1\<close>.\<close>

definition search :: "regex \<Rightarrow> string \<Rightarrow> nat option" where
  "search r s = List.find (\<lambda>i. execAt r s i \<noteq> None) [0..<Suc (length s)]"

text \<open>\<^verbatim>\<open>s.match(r)\<close> for a pattern without the \<open>g\<close> flag: the match at the least index;
  \<open>None\<close> stands for \<open>null\<close>. \<open>grp m n\<close> is \<^verbatim>\<open>m[n]\<close>, \<open>None\<close> when the group took no part.\<close>

definition match :: "string \<Rightarrow> regex \<Rightarrow> (nat \<times> string) list option" where
  "match s r = (case search r s of None \<Rightarrow> None | Some i \<Rightarrow> execAt r s i)"

definition grp :: "(nat \<times> string) list \<Rightarrow> nat \<Rightarrow> string option" where
  "grp m n = map_of m n"

text \<open>Building blocks of the patterns.\<close>

definition seqs :: "regex list \<Rightarrow> regex" where
  "seqs rs = foldr Seq rs (Lit [])"

abbreviation ws0 :: regex where "ws0 \<equiv> Star (Cls Space)"
abbreviation ws1 :: regex where "ws1 \<equiv> Plus (Cls Space)"
abbreviation word1 :: regex where "word1 \<equiv> Plus (Cls Word)"

text \<open>\<^verbatim>\<open>/\S/\<close>\<close>
definition reNonSpace :: regex where
  "reNonSpace = Cls NonSpace"

section \<open>determineEndLine\<close>

datatype error = TypeError

datatype family = PYTHON | JS | C_CPP

text \<open>The loop of the indentation strategy, from \<open>i\<close> on.\<close>

function pyScan :: "string list \<Rightarrow> nat \<Rightarrow> nat \<Rightarrow> nat" where
  "pyScan lines startIndent i =
     (if i < length lines then
        (let line = lines ! i in
         if trim line = [] then pyScan lines startIndent (i + 1)
         else (case search reNonSpace line of
                 Some indent \<Rightarrow>
                   if indent \<le> startIndent then i else pyScan lines startIndent (i + 1)
               | None \<Rightarrow> pyScan lines startIndent (i + 1)))
      else length lines)"
  by pat_completeness auto
termination
  by (relation "measure (\<lambda>(lines, startIndent, i). length lines - i)") auto

declare pyScan.simps [simp del]

text \<open>The loop of the brace counting strategy, from \<open>i\<close> on, with the two counters.\<close>

function braceScan :: "string list \<Rightarrow> nat \<Rightarrow> int \<Rightarrow> bool \<Rightarrow> nat \<Rightarrow> nat" where
  "braceScan lines startIdx braceCount foundBrace i =
     (if i < length lines then
        (let line = lines ! i;
             braceCount' = braceCount + int (matchCount CHR ''{'' line)
                                      - int (matchCount CHR ''}'' line);
             foundBrace' = (if matchCount CHR ''{'' line > 0 then True else foundBrace)
         in if foundBrace' \<and> braceCount' \<le> 0 then i + 1
            else braceScan lines startIdx braceCount' foundBrace' (i + 1))
      else min (startIdx + 20) (length lines))"
  by pat_completeness auto
termination
  by (relation "measure (\<lambda>(lines, startIdx, braceCount, foundBrace, i). length lines - i)") auto

declare braceScan.simps [simp del]

text \<open>Reading \<^verbatim>\<open>lines[startIdx]\<close> beyond the array gives \<^verbatim>\<open>undefined\<close>, and calling
  \<^verbatim>\<open>search\<close> on it throws; the brace strategy reads no line there.\<close>

definition determineEndLine :: "string list \<Rightarrow> nat \<Rightarrow> family \<Rightarrow> error + nat" where
  "determineEndLine lines startIdx type =
     (if type = PYTHON then
        (if startIdx < length lines then
           (case search reNonSpace (lines ! startIdx) of
              None \<Rightarrow> Inr (startIdx + 1)
            | Some startIndent \<Rightarrow> Inr (pyScan lines startIndent (startIdx + 1)))
         else Inl TypeError)
      else Inr (braceScan lines startIdx 0 False startIdx))"

section \<open>The data model (types.ts)\<close>

text \<open>The optional field \<open>language\<close> of a file is never read by the extractor and is left
  out.\<close>

record CodeFile =
  name :: string
  path :: string
  content :: string

datatype NodeType = FILE | CLASS | FUNCTION | MODULE

text \<open>The string value of each member of the enum.\<close>

fun nodeTypeStr :: "NodeType \<Rightarrow> string" where
  "nodeTypeStr FILE = ''FILE''"
| "nodeTypeStr CLASS = ''CLASS''"
| "nodeTypeStr FUNCTION = ''FUNCTION''"
| "nodeTypeStr MODULE = ''MODULE''"

text \<open>Every node the extractor builds sets \<open>file\<close> (here \<open>nodeFile\<close>), \<open>startLine\<close>, \<open>endLine\<close> and
  \<open>details\<close>, and none sets \<open>line\<close>.\<close>

record GraphNode =
  nodeId :: string
  label :: string
  nodeType :: NodeType
  nodeFile :: string
  startLine :: nat
  endLine :: nat
  details :: string

datatype LinkType = IMPORT | CALL | INHERITANCE | CONTAINS

record GraphLink =
  source :: string
  target :: string
  linkType :: LinkType

record AnalysisResult =
  nodes :: "GraphNode list"
  links :: "GraphLink list"
  summary :: string

section \<open>The patterns of analyzeCodebase\<close>

text \<open>\<^verbatim>\<open>/^class\s+(\w+)/\<close>\<close>
definition rePyClass :: regex where
  "rePyClass = seqs [Bol, Lit ''class'', ws1, Grp 1 word1]"

text \<open>\<^verbatim>\<open>/^\s*def\s+(\w+)/\<close>\<close>
definition rePyDef :: regex where
  "rePyDef = seqs [Bol, ws0, Lit ''def'', ws1, Grp 1 word1]"

text \<open>\<^verbatim>\<open>/^(?:from|import)\s+(\w+)/\<close>\<close>
definition rePyImport :: regex where
  "rePyImport = seqs [Bol, Alt (Lit ''from'') (Lit ''import''), ws1, Grp 1 word1]"

text \<open>\<^verbatim>\<open>/\.(js|ts|jsx|tsx)$/\<close>\<close>
definition reJsPath :: regex where
  "reJsPath =
     seqs [Lit ''.'', Grp 1 (Alt (Lit ''js'') (Alt (Lit ''ts'') (Alt (Lit ''jsx'') (Lit ''tsx'')))),
           Eol]"

text \<open>\<^verbatim>\<open>/^(?:export\s+)?class\s+(\w+)/\<close>\<close>
definition reJsClass :: regex where
  "reJsClass = seqs [Bol, Opt (Seq (Lit ''export'') ws1), Lit ''class'', ws1, Grp 1 word1]"

text \<open>\<^verbatim>\<open>/function\s+(\w+)|const\s+(\w+)\s*=\s*(?:async\s*)?\(|const\s+(\w+)\s*=\s*(?:async\s*)?\w+\s*=>/\<close>\<close>
definition reJsFunc :: regex where
  "reJsFunc =
     Alt (seqs [Lit ''function'', ws1, Grp 1 word1])
    (Alt (seqs [Lit ''const'', ws1, Grp 2 word1, ws0, Lit ''='', ws0,
                Opt (Seq (Lit ''async'') ws0), Lit ''(''])
         (seqs [Lit ''const'', ws1, Grp 3 word1, ws0, Lit ''='', ws0,
                Opt (Seq (Lit ''async'') ws0), word1, ws0, Lit ''=>'']))"

text \<open>\<^verbatim>\<open>/from\s+['"](.+)['"]/\<close> (the quotes are the characters 0x27 and 0x22)\<close>
definition reJsImport :: regex where
  "reJsImport =
     seqs [Lit ''from'', ws1, Cls (OneOf [CHR 0x27, CHR 0x22]), Grp 1 (Plus (Cls Dot)),
           Cls (OneOf [CHR 0x27, CHR 0x22])]"

text \<open>\<^verbatim>\<open>/\.(c|cpp|h|hpp|cc)$/\<close>\<close>
definition reCPath :: regex where
  "reCPath =
     seqs [Lit ''.'',
           Grp 1 (Alt (Lit ''c'') (Alt (Lit ''cpp'') (Alt (Lit ''h'') (Alt (Lit ''hpp'') (Lit ''cc''))))),
           Eol]"

text \<open>\<^verbatim>\<open>/^\s*(?:class|struct)\s+(\w+)/\<close>\<close>
definition reCClass :: regex where
  "reCClass = seqs [Bol, ws0, Alt (Lit ''class'') (Lit ''struct''), ws1, Grp 1 word1]"

text \<open>\<^verbatim>\<open>/^\s*(?:[\w:*&<>]+\s+)+([\w:]+)\s*\(/\<close>\<close>
definition reCFunc :: regex where
  "reCFunc =
     seqs [Bol, ws0, Plus (Seq (Plus (Cls (Union Word (OneOf '':*&<>'')))) ws1),
           Grp 1 (Plus (Cls (Union Word (OneOf '':'')))), ws0, Lit ''('']"

text \<open>\<^verbatim>\<open>/^#include\s+[<"](.+)[>"]/\<close>\<close>
definition reCInclude :: regex where
  "reCInclude =
     seqs [Bol, Lit ''#include'', ws1, Cls (OneOf [CHR ''<'', CHR 0x22]), Grp 1 (Plus (Cls Dot)),
           Cls (OneOf [CHR ''>'', CHR 0x22])]"

section \<open>analyzeCodebase\<close>

definition generateId :: "string \<Rightarrow> string \<Rightarrow> string \<Rightarrow> string" where
  "generateId type name' fileP = type @ '':'' @ fileP @ '':'' @ name'"

text \<open>
  Two values are taken as defined by the source's types without a check: the id found by
  \<^verbatim>\<open>fileNodes.get(f.path)!\<close> and the first group of a match. The model makes the case that
  one is \<^verbatim>\<open>undefined\<close> the result \<open>Inl Undefined\<close>; \<open>Inl TypeError\<close> is the exception of
  \<open>determineEndLine\<close>.
\<close>

datatype failure = Raised error | Undefined

text \<open>The \<^verbatim>\<open>Map\<close> from path to node id: \<open>set\<close> on a key that is present keeps the key's
  place in the iteration order.\<close>

fun mapSet :: "('k \<times> 'v) list \<Rightarrow> 'k \<Rightarrow> 'v \<Rightarrow> ('k \<times> 'v) list" where
  "mapSet [] k v = [(k, v)]"
| "mapSet ((k', v') # m) k v = (if k' = k then (k, v) # m else (k', v') # mapSet m k v)"

definition mapGet :: "('k \<times> 'v) list \<Rightarrow> 'k \<Rightarrow> 'v option" where
  "mapGet m k = map_of m k"

text \<open>What one line pushes on \<open>nodes\<close>, what it pushes on \<open>links\<close>, and \<open>currentClass\<close>
  after it.\<close>

type_synonym pushed = "GraphNode list \<times> GraphLink list \<times> GraphNode option"

text \<open>Two blocks of statements one after the other.\<close>

definition thenDo :: "failure + pushed \<Rightarrow> (GraphNode option \<Rightarrow> failure + pushed) \<Rightarrow> failure + pushed" where
  "thenDo a b =
     (case a of
        Inl e \<Rightarrow> Inl e
      | Inr (ns, ls, cur) \<Rightarrow>
          (case b cur of
             Inl e \<Rightarrow> Inl e
           | Inr (ns', ls', cur') \<Rightarrow> Inr (ns @ ns', ls @ ls', cur')))"

definition endLineOf :: "string list \<Rightarrow> nat \<Rightarrow> family \<Rightarrow> failure + nat" where
  "endLineOf lines index type =
     (case determineEndLine lines index type of Inl e \<Rightarrow> Inl (Raised e) | Inr n \<Rightarrow> Inr n)"

text \<open>The loop over \<^verbatim>\<open>fileNodes.entries()\<close> that links the current file to the files
  whose path passes the test.\<close>

definition importLinks ::
  "(string \<times> string) list \<Rightarrow> CodeFile \<Rightarrow> string \<Rightarrow> (string \<Rightarrow> bool) \<Rightarrow> GraphLink list" where
  "importLinks fileNodes f fileId test =
     map (\<lambda>(path, fid). \<lparr>source = fileId, target = fid, linkType = IMPORT\<rparr>)
         (filter (\<lambda>(path, fid). test path \<and> path \<noteq> CodeFile.path f) fileNodes)"

subsection \<open>Python\<close>

text \<open>The class block: \<open>None\<close> when it does not return from the callback.\<close>

definition pyClass ::
  "int \<Rightarrow> CodeFile \<Rightarrow> string \<Rightarrow> string list \<Rightarrow> nat \<Rightarrow> string \<Rightarrow> (failure + pushed) option" where
  "pyClass depth f fileId lines index line =
     (if depth \<ge> 2 then
        (case match line rePyClass of
           None \<Rightarrow> None
         | Some classMatch \<Rightarrow> Some
             (case grp classMatch 1 of
                None \<Rightarrow> Inl Undefined
              | Some name' \<Rightarrow>
                  (case endLineOf lines index PYTHON of
                     Inl e \<Rightarrow> Inl e
                   | Inr endLine' \<Rightarrow>
                       (let id = generateId ''CLASS'' name' (path f);
                            node = \<lparr>nodeId = id, label = name', nodeType = CLASS, nodeFile = path f,
                                    startLine = index + 1, endLine = endLine',
                                    details = ''Class definition in '' @ name f\<rparr>
                        in Inr ([node],
                                [\<lparr>source = fileId, target = id, linkType = CONTAINS\<rparr>],
                                Some node)))))
      else None)"

definition pyFunction ::
  "int \<Rightarrow> CodeFile \<Rightarrow> string \<Rightarrow> string list \<Rightarrow> GraphNode option \<Rightarrow> nat \<Rightarrow> string \<Rightarrow> failure + pushed" where
  "pyFunction depth f fileId lines currentClass index line =
     (if depth \<ge> 3 then
        (case match line rePyDef of
           None \<Rightarrow> Inr ([], [], currentClass)
         | Some funcMatch \<Rightarrow>
             (case grp funcMatch 1 of
                None \<Rightarrow> Inl Undefined
              | Some name' \<Rightarrow>
                  (case endLineOf lines index PYTHON of
                     Inl e \<Rightarrow> Inl e
                   | Inr endLine' \<Rightarrow>
                       (let id = generateId ''FUNCTION'' name' (path f);
                            node = \<lparr>nodeId = id, label = name', nodeType = FUNCTION, nodeFile = path f,
                                    startLine = index + 1, endLine = endLine',
                                    details = ''Function definition in '' @ name f\<rparr>
                        in (case (search reNonSpace line, currentClass) of
                              (Some indent, Some cls) \<Rightarrow>
                                if indent > 0
                                then Inr ([node],
                                          [\<lparr>source = nodeId cls, target = id, linkType = CONTAINS\<rparr>],
                                          currentClass)
                                else Inr ([node],
                                          [\<lparr>source = fileId, target = id, linkType = CONTAINS\<rparr>],
                                          None)
                            | _ \<Rightarrow> Inr ([node],
                                        [\<lparr>source = fileId, target = id, linkType = CONTAINS\<rparr>],
                                        None))))))
      else Inr ([], [], currentClass))"

definition pyImports ::
  "(string \<times> string) list \<Rightarrow> CodeFile \<Rightarrow> string \<Rightarrow> string \<Rightarrow> GraphNode option \<Rightarrow> failure + pushed" where
  "pyImports fileNodes f fileId line currentClass =
     (case match line rePyImport of
        None \<Rightarrow> Inr ([], [], currentClass)
      | Some importMatch \<Rightarrow>
          (case grp importMatch 1 of
             None \<Rightarrow> Inl Undefined
           | Some moduleName \<Rightarrow>
               Inr ([], importLinks fileNodes f fileId (\<lambda>path. includesStr path moduleName),
                    currentClass)))"

definition pythonLine ::
  "(string \<times> string) list \<Rightarrow> int \<Rightarrow> CodeFile \<Rightarrow> string \<Rightarrow> string list \<Rightarrow> GraphNode option
     \<Rightarrow> nat \<Rightarrow> string \<Rightarrow> failure + pushed" where
  "pythonLine fileNodes depth f fileId lines currentClass index line =
     (case pyClass depth f fileId lines index line of
        Some r \<Rightarrow> r
      | None \<Rightarrow>
          thenDo (pyFunction depth f fileId lines currentClass index line)
                 (pyImports fileNodes f fileId line))"

subsection \<open>JavaScript and TypeScript\<close>

text \<open>\<^verbatim>\<open>a || b\<close> on values that are a string or \<^verbatim>\<open>undefined\<close>, and the test \<^verbatim>\<open>if (a)\<close>: the
  empty string and \<^verbatim>\<open>undefined\<close> are falsy.\<close>

definition truthy :: "string option \<Rightarrow> bool" where
  "truthy a = (case a of Some (x # xs) \<Rightarrow> True | _ \<Rightarrow> False)"

definition orElse :: "string option \<Rightarrow> string option \<Rightarrow> string option" where
  "orElse a b = (if truthy a then a else b)"

text \<open>\<^verbatim>\<open>xs.pop()\<close>: the last element, \<^verbatim>\<open>undefined\<close> on the empty array.\<close>

definition pop :: "'a list \<Rightarrow> 'a option" where
  "pop xs = (if xs = [] then None else Some (last xs))"

definition jsClass ::
  "int \<Rightarrow> CodeFile \<Rightarrow> string \<Rightarrow> string list \<Rightarrow> GraphNode option \<Rightarrow> nat \<Rightarrow> string \<Rightarrow> failure + pushed" where
  "jsClass depth f fileId lines currentClass index line =
     (if depth \<ge> 2 then
        (case match line reJsClass of
           None \<Rightarrow> Inr ([], [], currentClass)
         | Some classMatch \<Rightarrow>
             (case grp classMatch 1 of
                None \<Rightarrow> Inl Undefined
              | Some name' \<Rightarrow>
                  (case endLineOf lines index JS of
                     Inl e \<Rightarrow> Inl e
                   | Inr endLine' \<Rightarrow>
                       (let id = generateId ''CLASS'' name' (path f)
                        in Inr ([\<lparr>nodeId = id, label = name', nodeType = CLASS, nodeFile = path f,
                                   startLine = index + 1, endLine = endLine',
                                   details = ''Class definition in '' @ name f\<rparr>],
                                [\<lparr>source = fileId, target = id, linkType = CONTAINS\<rparr>],
                                currentClass)))))
      else Inr ([], [], currentClass))"

definition jsFunction ::
  "int \<Rightarrow> CodeFile \<Rightarrow> string \<Rightarrow> string list \<Rightarrow> GraphNode option \<Rightarrow> nat \<Rightarrow> string \<Rightarrow> failure + pushed" where
  "jsFunction depth f fileId lines currentClass index line =
     (if depth \<ge> 3 then
        (case match line reJsFunc of
           None \<Rightarrow> Inr ([], [], currentClass)
         | Some funcMatch \<Rightarrow>
             (let nameOpt = orElse (grp funcMatch 1) (orElse (grp funcMatch 2) (grp funcMatch 3))
              in if truthy nameOpt then
                   (case nameOpt of
                      None \<Rightarrow> Inr ([], [], currentClass)
                    | Some name' \<Rightarrow>
                        (case endLineOf lines index JS of
                           Inl e \<Rightarrow> Inl e
                         | Inr endLine' \<Rightarrow>
                             (let id = generateId ''FUNCTION'' name' (path f)
                              in Inr ([\<lparr>nodeId = id, label = name', nodeType = FUNCTION,
                                         nodeFile = path f, startLine = index + 1,
                                         endLine = endLine',
                                         details = ''Function definition in '' @ name f\<rparr>],
                                      [\<lparr>source = fileId, target = id, linkType = CONTAINS\<rparr>],
                                      currentClass))))
                 else Inr ([], [], currentClass)))
      else Inr ([], [], currentClass))"

definition jsImports ::
  "(string \<times> string) list \<Rightarrow> CodeFile \<Rightarrow> string \<Rightarrow> string \<Rightarrow> GraphNode option \<Rightarrow> failure + pushed" where
  "jsImports fileNodes f fileId line currentClass =
     (case match line reJsImport of
        None \<Rightarrow> Inr ([], [], currentClass)
      | Some importMatch \<Rightarrow>
          (case grp importMatch 1 of
             None \<Rightarrow> Inl Undefined
           | Some pathPart \<Rightarrow>
               (let namePart = pop (split CHR ''/'' pathPart)
                in if truthy namePart then
                     (case namePart of
                        None \<Rightarrow> Inr ([], [], currentClass)
                      | Some namePart' \<Rightarrow>
                          Inr ([], importLinks fileNodes f fileId (\<lambda>path. includesStr path namePart'),
                               currentClass))
                   else Inr ([], [], currentClass))))"

definition jsLine ::
  "(string \<times> string) list \<Rightarrow> int \<Rightarrow> CodeFile \<Rightarrow> string \<Rightarrow> string list \<Rightarrow> GraphNode option
     \<Rightarrow> nat \<Rightarrow> string \<Rightarrow> failure + pushed" where
  "jsLine fileNodes depth f fileId lines currentClass index line =
     thenDo (thenDo (jsClass depth f fileId lines currentClass index line)
                    (\<lambda>cur. jsFunction depth f fileId lines cur index line))
            (jsImports fileNodes f fileId line)"

subsection \<open>C and C++\<close>

definition keywordList :: "string list" where
  "keywordList = [''if'', ''while'', ''for'', ''switch'', ''return'', ''catch'', ''else'', ''new'',
               ''delete'']"

definition cClass ::
  "int \<Rightarrow> CodeFile \<Rightarrow> string \<Rightarrow> string list \<Rightarrow> GraphNode option \<Rightarrow> nat \<Rightarrow> string \<Rightarrow> failure + pushed" where
  "cClass depth f fileId lines currentClass index line =
     (if depth \<ge> 2 then
        (case match line reCClass of
           None \<Rightarrow> Inr ([], [], currentClass)
         | Some classMatch \<Rightarrow>
             (case grp classMatch 1 of
                None \<Rightarrow> Inl Undefined
              | Some name' \<Rightarrow>
                  (case endLineOf lines index C_CPP of
                     Inl e \<Rightarrow> Inl e
                   | Inr endLine' \<Rightarrow>
                       (let id = generateId ''CLASS'' name' (path f)
                        in Inr ([\<lparr>nodeId = id, label = name', nodeType = CLASS, nodeFile = path f,
                                   startLine = index + 1, endLine = endLine',
                                   details = ''Class/Struct definition in '' @ name f\<rparr>],
                                [\<lparr>source = fileId, target = id, linkType = CONTAINS\<rparr>],
                                currentClass)))))
      else Inr ([], [], currentClass))"

definition cFunction ::
  "int \<Rightarrow> CodeFile \<Rightarrow> string \<Rightarrow> string list \<Rightarrow> GraphNode option \<Rightarrow> nat \<Rightarrow> string \<Rightarrow> failure + pushed" where
  "cFunction depth f fileId lines currentClass index line =
     (if depth \<ge> 3 then
        (case match line reCFunc of
           None \<Rightarrow> Inr ([], [], currentClass)
         | Some funcMatch \<Rightarrow>
             (case grp funcMatch 1 of
                None \<Rightarrow> Inl Undefined
              | Some name' \<Rightarrow>
                  if name' \<notin> set keywordList \<and> \<not> endsWith (trim line) '';'' then
                    (case endLineOf lines index C_CPP of
                       Inl e \<Rightarrow> Inl e
                     | Inr endLine' \<Rightarrow>
                         (let id = generateId ''FUNCTION'' name' (path f)
                          in Inr ([\<lparr>nodeId = id, label = name', nodeType = FUNCTION,
                                     nodeFile = path f, startLine = index + 1,
                                     endLine = endLine',
                                     details = ''Function definition in '' @ name f\<rparr>],
                                  [\<lparr>source = fileId, target = id, linkType = CONTAINS\<rparr>],
                                  currentClass)))
                  else Inr ([], [], currentClass)))
      else Inr ([], [], currentClass))"

definition cIncludes ::
  "(string \<times> string) list \<Rightarrow> CodeFile \<Rightarrow> string \<Rightarrow> string \<Rightarrow> GraphNode option \<Rightarrow> failure + pushed" where
  "cIncludes fileNodes f fileId line currentClass =
     (case match line reCInclude of
        None \<Rightarrow> Inr ([], [], currentClass)
      | Some includeMatch \<Rightarrow>
          (case grp includeMatch 1 of
             None \<Rightarrow> Inl Undefined
           | Some includedPath \<Rightarrow>
               (let includedName = pop (split CHR ''/'' includedPath)
                in if truthy includedName then
                     (case includedName of
                        None \<Rightarrow> Inr ([], [], currentClass)
                      | Some includedName' \<Rightarrow>
                          Inr ([], importLinks fileNodes f fileId (\<lambda>path. endsWith path includedName'),
                               currentClass))
                   else Inr ([], [], currentClass))))"

definition cLine ::
  "(string \<times> string) list \<Rightarrow> int \<Rightarrow> CodeFile \<Rightarrow> string \<Rightarrow> string list \<Rightarrow> GraphNode option
     \<Rightarrow> nat \<Rightarrow> string \<Rightarrow> failure + pushed" where
  "cLine fileNodes depth f fileId lines currentClass index line =
     thenDo (thenDo (cClass depth f fileId lines currentClass index line)
                    (\<lambda>cur. cFunction depth f fileId lines cur index line))
            (cIncludes fileNodes f fileId line)"

subsection \<open>The two passes\<close>

text \<open>The callback of \<^verbatim>\<open>lines.forEach\<close>.\<close>

definition processLine ::
  "(string \<times> string) list \<Rightarrow> int \<Rightarrow> CodeFile \<Rightarrow> string \<Rightarrow> string list \<Rightarrow> GraphNode option
     \<Rightarrow> nat \<Rightarrow> string \<Rightarrow> failure + pushed" where
  "processLine fileNodes depth f fileId lines currentClass index line =
     (if trim line = [] then Inr ([], [], currentClass)
      else if endsWith (path f) ''.py'' then
        pythonLine fileNodes depth f fileId lines currentClass index line
      else if match (path f) reJsPath \<noteq> None then
        jsLine fileNodes depth f fileId lines currentClass index line
      else if match (path f) reCPath \<noteq> None then
        cLine fileNodes depth f fileId lines currentClass index line
      else Inr ([], [], currentClass))"

text \<open>\<^verbatim>\<open>lines.forEach((line, index) => ...)\<close> over the remaining lines, with the two arrays
  and \<open>currentClass\<close> as they stand.\<close>

fun forEachLine ::
  "(string \<times> string) list \<Rightarrow> int \<Rightarrow> CodeFile \<Rightarrow> string \<Rightarrow> string list \<Rightarrow> pushed
     \<Rightarrow> (nat \<times> string) list \<Rightarrow> failure + pushed" where
  "forEachLine fileNodes depth f fileId lines st [] = Inr st"
| "forEachLine fileNodes depth f fileId lines st ((index, line) # rest) =
     (case st of (nodesA, linksA, currentClass) \<Rightarrow>
        (case processLine fileNodes depth f fileId lines currentClass index line of
           Inl e \<Rightarrow> Inl e
         | Inr (ns, ls, cur) \<Rightarrow>
             forEachLine fileNodes depth f fileId lines (nodesA @ ns, linksA @ ls, cur) rest))"

text \<open>The callback of the second \<^verbatim>\<open>files.forEach\<close>.\<close>

definition processFile ::
  "(string \<times> string) list \<Rightarrow> int \<Rightarrow> GraphNode list \<times> GraphLink list \<Rightarrow> CodeFile
     \<Rightarrow> failure + (GraphNode list \<times> GraphLink list)" where
  "processFile fileNodes depth st f =
     (let lines = split CHR 0x0A (content f) in
      case mapGet fileNodes (path f) of
        None \<Rightarrow> Inl Undefined
      | Some fileId \<Rightarrow>
          (case forEachLine fileNodes depth f fileId lines (fst st, snd st, None)
                  (enumerate 0 lines) of
             Inl e \<Rightarrow> Inl e
           | Inr (ns, ls, cur) \<Rightarrow> Inr (ns, ls)))"

fun forEachFile ::
  "(string \<times> string) list \<Rightarrow> int \<Rightarrow> GraphNode list \<times> GraphLink list \<Rightarrow> CodeFile list
     \<Rightarrow> failure + (GraphNode list \<times> GraphLink list)" where
  "forEachFile fileNodes depth st [] = Inr st"
| "forEachFile fileNodes depth st (f # rest) =
     (case processFile fileNodes depth st f of
        Inl e \<Rightarrow> Inl e
      | Inr st' \<Rightarrow> forEachFile fileNodes depth st' rest)"

text \<open>The first \<^verbatim>\<open>files.forEach\<close>: one File node per file, and the map from path to id.\<close>

definition fileNode :: "CodeFile \<Rightarrow> GraphNode" where
  "fileNode f =
     \<lparr>nodeId = ''FILE:'' @ path f, label = name f, nodeType = FILE, nodeFile = path f,
      startLine = 1, endLine = length (split CHR 0x0A (content f)),
      details = ''File: '' @ path f\<rparr>"

definition fileNodesOf :: "CodeFile list \<Rightarrow> (string \<times> string) list" where
  "fileNodesOf files = foldl (\<lambda>m f. mapSet m (path f) (''FILE:'' @ path f)) [] files"

definition summaryOf :: "int \<Rightarrow> CodeFile list \<Rightarrow> GraphNode list \<Rightarrow> string" where
  "summaryOf depth files ns =
     ''Offline analysis complete (Depth: '' @ showInt depth @ ''). '' @ [CHR 0x0A] @
     ''  Scanned '' @ showNat (length files) @ '' files. '' @ [CHR 0x0A] @
     ''  Identified '' @ showNat (length (filter (\<lambda>n. nodeType n = CLASS) ns)) @
     '' classes and '' @ showNat (length (filter (\<lambda>n. nodeType n = FUNCTION) ns)) @
     '' functions.''"

text \<open>The value the returned promise resolves to, or the failure.\<close>

definition analyzeCodebase :: "CodeFile list \<Rightarrow> int \<Rightarrow> failure + AnalysisResult" where
  "analyzeCodebase files depth =
     (case forEachFile (fileNodesOf files) depth (map fileNode files, []) files of
        Inl e \<Rightarrow> Inl e
      | Inr (ns, ls) \<Rightarrow> Inr \<lparr>nodes = ns, links = ls, summary = summaryOf depth files ns\<rparr>)"

section \<open>The notions of the specification\<close>

subsection \<open>The indentation strategy, in the specification's words\<close>

text \<open>A line is entirely white space; the column of the first character of a line that
  is not white space.\<close>

definition blank :: "string \<Rightarrow> bool" where
  "blank l = list_all isSpace l"

definition indentation :: "string \<Rightarrow> nat" where
  "indentation l = length (takeWhile isSpace l)"

text \<open>Line \<open>i\<close> terminates the block that starts at line \<open>s\<close>: it is not blank and its
  indentation is at most that of the start line.\<close>

definition blockEndsAt :: "string list \<Rightarrow> nat \<Rightarrow> nat \<Rightarrow> bool" where
  "blockEndsAt lines s i = (\<not> blank (lines ! i) \<and> indentation (lines ! i) \<le> indentation (lines ! s))"

text \<open>A blank start line is a construct of one line; otherwise the block ends at the first
  later line that terminates it, and at the end of the input when there is none.\<close>

definition indentationEnd :: "string list \<Rightarrow> nat \<Rightarrow> nat" where
  "indentationEnd lines s =
     (if blank (lines ! s) then s + 1
      else (case List.find (blockEndsAt lines s) [s + 1..<length lines] of
              Some i \<Rightarrow> i
            | None \<Rightarrow> length lines))"

subsection \<open>The brace strategy, in the specification's words\<close>

text \<open>\<open>+1\<close> for each opening and \<open>-1\<close> for each closing brace of a line; the running
  balance of the lines \<open>s\<close> to \<open>i\<close>; whether an opening brace occurs in them.\<close>

definition braceDelta :: "string \<Rightarrow> int" where
  "braceDelta line = int (matchCount CHR ''{'' line) - int (matchCount CHR ''}'' line)"

definition balance :: "string list \<Rightarrow> nat \<Rightarrow> nat \<Rightarrow> int" where
  "balance lines s i = sum_list (map (\<lambda>k. braceDelta (lines ! k)) [s..<Suc i])"

definition seenOpen :: "string list \<Rightarrow> nat \<Rightarrow> nat \<Rightarrow> bool" where
  "seenOpen lines s i = list_ex (\<lambda>k. CHR ''{'' \<in> set (lines ! k)) [s..<Suc i]"

definition blockCloses :: "string list \<Rightarrow> nat \<Rightarrow> nat \<Rightarrow> bool" where
  "blockCloses lines s i = (seenOpen lines s i \<and> balance lines s i \<le> 0)"

text \<open>The block ends with the first line at which it closes; without such a line the
  result is the bounded default.\<close>

definition braceEnd :: "string list \<Rightarrow> nat \<Rightarrow> nat" where
  "braceEnd lines s =
     (case List.find (blockCloses lines s) [s..<length lines] of
        Some i \<Rightarrow> i + 1
      | None \<Rightarrow> min (s + 20) (length lines))"

subsection \<open>Graphs\<close>

text \<open>The number of lines of a file is the number of pieces \<^verbatim>\<open>content.split('\n')\<close> gives,
  the \<open>endLine\<close> of its File node: a text that ends with a line feed has an empty last
  line.\<close>

definition lineCount :: "CodeFile \<Rightarrow> nat" where
  "lineCount f = length (split CHR 0x0A (content f))"

definition spanWithin :: "GraphNode \<Rightarrow> CodeFile \<Rightarrow> bool" where
  "spanWithin n f = (1 \<le> startLine n \<and> startLine n \<le> endLine n \<and> endLine n \<le> lineCount f)"

definition isImport :: "GraphLink \<Rightarrow> bool" where
  "isImport l = (linkType l = IMPORT)"

definition isContains :: "GraphLink \<Rightarrow> bool" where
  "isContains l = (linkType l = CONTAINS)"

text \<open>The family whose branch the callback takes for the lines of a file, by the file's
  path: the tests of the callback in their order.\<close>

definition familyOf :: "string \<Rightarrow> family option" where
  "familyOf p =
     (if endsWith p ''.py'' then Some PYTHON
      else if match p reJsPath \<noteq> None then Some JS
      else if match p reCPath \<noteq> None then Some C_CPP
      else None)"

subsection \<open>Inputs of the examples\<close>

definition tsFiles :: "CodeFile list" where
  "tsFiles =
     [\<lparr>name = ''x.ts'', path = ''src/x.ts'',
       content = ''import {a} from '' @ [CHR 0x22] @ ''./y'' @ [CHR 0x22] @
                 '';\<newline>export const f = async (x) => {\<newline>}''\<rparr>,
      \<lparr>name = ''y.ts'', path = ''src/y.ts'', content = ''export class Y {}''\<rparr>]"

definition tsResult :: AnalysisResult where
  "tsResult =
     \<lparr>nodes =
        [\<lparr>nodeId = ''FILE:src/x.ts'', label = ''x.ts'', nodeType = FILE,
           nodeFile = ''src/x.ts'', startLine = 1, endLine = 3, details = ''File: src/x.ts''\<rparr>,
         \<lparr>nodeId = ''FILE:src/y.ts'', label = ''y.ts'', nodeType = FILE,
           nodeFile = ''src/y.ts'', startLine = 1, endLine = 1, details = ''File: src/y.ts''\<rparr>,
         \<lparr>nodeId = ''FUNCTION:src/x.ts:f'', label = ''f'', nodeType = FUNCTION,
           nodeFile = ''src/x.ts'', startLine = 2, endLine = 3,
           details = ''Function definition in x.ts''\<rparr>,
         \<lparr>nodeId = ''CLASS:src/y.ts:Y'', label = ''Y'', nodeType = CLASS,
           nodeFile = ''src/y.ts'', startLine = 1, endLine = 1,
           details = ''Class definition in y.ts''\<rparr>],
      links =
        [\<lparr>source = ''FILE:src/x.ts'', target = ''FILE:src/y.ts'', linkType = IMPORT\<rparr>,
         \<lparr>source = ''FILE:src/x.ts'', target = ''FUNCTION:src/x.ts:f'', linkType = CONTAINS\<rparr>,
         \<lparr>source = ''FILE:src/y.ts'', target = ''CLASS:src/y.ts:Y'', linkType = CONTAINS\<rparr>],
      summary =
        ''Offline analysis complete (Depth: 3). \<newline>  Scanned 2 files. \<newline>  Identified 1 classes and 1 functions.''\<rparr>"

section \<open>Notions of the proofs\<close>

text \<open>The groups a state has captured, and the patterns every match of which captures
  group \<open>n\<close>.\<close>

definition capKeys :: "mstate \<Rightarrow> nat set" where
  "capKeys st = fst ` set (snd (snd st))"

fun mustCapture :: "nat \<Rightarrow> regex \<Rightarrow> bool" where
  "mustCapture n (Seq a b) = (mustCapture n a \<or> mustCapture n b)"
| "mustCapture n (Alt a b) = (mustCapture n a \<and> mustCapture n b)"
| "mustCapture n (Plus a) = mustCapture n a"
| "mustCapture n (Grp m a) = (m = n \<or> mustCapture n a)"
| "mustCapture n _ = False"

text \<open>What holds of a node and of an Import link pushed while line \<open>index\<close> of the file
  \<open>f\<close> is processed.\<close>

definition nodeOk :: "CodeFile \<Rightarrow> string list \<Rightarrow> nat \<Rightarrow> GraphNode \<Rightarrow> bool" where
  "nodeOk f lines index n =
     (nodeFile n = path f \<and> startLine n = index + 1 \<and> index + 1 \<le> endLine n \<and>
      endLine n \<le> length lines \<and> (nodeType n = CLASS \<or> nodeType n = FUNCTION) \<and>
      nodeId n = generateId (nodeTypeStr (nodeType n)) (label n) (path f))"

definition importOk :: "(string \<times> string) list \<Rightarrow> CodeFile \<Rightarrow> string \<Rightarrow> GraphLink \<Rightarrow> bool" where
  "importOk fileNodes f fileId l =
     (source l = fileId \<and> list_ex (\<lambda>(p, t). t = target l \<and> p \<noteq> path f) fileNodes)"

definition pushedOk ::
  "(string \<times> string) list \<Rightarrow> CodeFile \<Rightarrow> string \<Rightarrow> string list \<Rightarrow> nat \<Rightarrow> pushed \<Rightarrow> bool" where
  "pushedOk fileNodes f fileId lines index out =
     (case out of (ns, ls, cur) \<Rightarrow>
        list_all (nodeOk f lines index) ns \<and>
        list_all (\<lambda>l. linkType l = CONTAINS \<or> (linkType l = IMPORT \<and> importOk fileNodes f fileId l)) ls)"

text \<open>The invariants of the two arrays.\<close>

definition nodeInv :: "CodeFile list \<Rightarrow> GraphNode \<Rightarrow> bool" where
  "nodeInv files n =
     ((nodeType n = FILE \<and> nodeId n = ''FILE:'' @ nodeFile n) \<or>
      (\<exists>f \<in> set files. \<exists>i. nodeOk f (split CHR 0x0A (content f)) i n))"

definition linkInv :: "CodeFile list \<Rightarrow> GraphLink \<Rightarrow> bool" where
  "linkInv files l =
     (linkType l = CONTAINS \<or>
      (linkType l = IMPORT \<and>
       (\<exists>f \<in> set files. importOk (fileNodesOf files) f (''FILE:'' @ path f) l)))"

text \<open>Two runs at depths \<open>d \<le> d'\<close>: the nodes of the first are nodes of the second, and
  the Import links are the same.\<close>

definition related :: "pushed \<Rightarrow> pushed \<Rightarrow> bool" where
  "related o1 o2 =
     (set (fst o1) \<subseteq> set (fst o2) \<and>
      filter isImport (fst (snd o1)) = filter isImport (fst (snd o2)))"

definition relatedR :: "failure + pushed \<Rightarrow> failure + pushed \<Rightarrow> bool" where
  "relatedR a b = (case (a, b) of (Inr o1, Inr o2) \<Rightarrow> related o1 o2 | _ \<Rightarrow> True)"

text \<open>The Contains links a line pushes go with the nodes it pushes, one for one: the
  link points to the node, from the file or, for a Function node, from the class that
  \<open>currentClass\<close> holds. \<open>shapeF\<close> is the case of the blocks that link to the file only
  and leave \<open>currentClass\<close> as it is.\<close>

definition linkFor :: "string \<Rightarrow> GraphNode option \<Rightarrow> GraphLink \<Rightarrow> GraphNode \<Rightarrow> bool" where
  "linkFor fileId cur l n =
     (target l = nodeId n \<and>
      (source l = fileId \<or> (\<exists>c. cur = Some c \<and> source l = nodeId c \<and> nodeType n = FUNCTION)))"

definition shape :: "string \<Rightarrow> GraphNode option \<Rightarrow> pushed \<Rightarrow> bool" where
  "shape fileId cur out =
     (case out of (ns, ls, cur') \<Rightarrow>
        list_all2 (linkFor fileId cur) (filter isContains ls) ns \<and>
        (cur' = cur \<or> cur' = None \<or> (\<exists>n \<in> set ns. cur' = Some n \<and> nodeType n = CLASS)))"

definition shapeF :: "string \<Rightarrow> GraphNode option \<Rightarrow> pushed \<Rightarrow> bool" where
  "shapeF fileId cur out =
     (case out of (ns, ls, cur') \<Rightarrow>
        list_all2 (linkFor fileId None) (filter isContains ls) ns \<and> cur' = cur)"

definition holds :: "(pushed \<Rightarrow> bool) \<Rightarrow> failure + pushed \<Rightarrow> bool" where
  "holds P r = (case r of Inl e \<Rightarrow> True | Inr out \<Rightarrow> P out)"

text \<open>The invariant of the two arrays for the Contains links, and that of
  \<open>currentClass\<close>.\<close>

definition edgeOk :: "GraphNode list \<Rightarrow> GraphLink \<Rightarrow> GraphNode \<Rightarrow> bool" where
  "edgeOk ns l n =
     (target l = nodeId n \<and>
      (\<exists>s \<in> set ns. source l = nodeId s \<and>
         (nodeType s = FILE \<or> (nodeType s = CLASS \<and> nodeType n = FUNCTION))))"

definition treeInv :: "GraphNode list \<Rightarrow> GraphLink list \<Rightarrow> bool" where
  "treeInv ns ls =
     list_all2 (edgeOk ns) (filter isContains ls) (filter (\<lambda>n. nodeType n \<noteq> FILE) ns)"

definition curInv :: "GraphNode list \<Rightarrow> GraphNode option \<Rightarrow> bool" where
  "curInv ns cur = (case cur of None \<Rightarrow> True | Some c \<Rightarrow> c \<in> set ns \<and> nodeType c = CLASS)"

text \<open>The kind an id starts with, as a rank: a Contains link goes up in rank.\<close>

definition idRank :: "string \<Rightarrow> nat" where
  "idRank s = (if startsWith s ''FILE:'' then 0 else if startsWith s ''CLASS:'' then 1 else 2)"

text \<open>A link from the id of a File node to that of a Class or Function node, or from the
  id of a Class node to that of a Function node.\<close>

definition containsEdge :: "GraphNode list \<Rightarrow> GraphLink \<Rightarrow> bool" where
  "containsEdge ns l =
     (\<exists>s \<in> set ns. \<exists>t \<in> set ns. source l = nodeId s \<and> target l = nodeId t \<and>
        ((nodeType s = FILE \<and> nodeType t = CLASS) \<or> (nodeType s = FILE \<and> nodeType t = FUNCTION) \<or>
         (nodeType s = CLASS \<and> nodeType t = FUNCTION)))"

section \<open>Lemmas\<close>

subsection \<open>Captured groups\<close>

lemma iter_keys:
  "(\<And>st st'. st' \<in> set (f st) \<Longrightarrow> capKeys st \<subseteq> capKeys st') \<Longrightarrow>
   st' \<in> set (iter f st) \<Longrightarrow> capKeys st \<subseteq> capKeys st'"
proof (induction f st arbitrary: st' rule: iter.induct)
  case (1 f st)
  from "1.prems"(2) have "st' = st \<or> (\<exists>m \<in> set (f st). length (fst (snd m)) < length (fst (snd st)) \<and> st' \<in> set (iter f m))"
    by (subst (asm) iter.simps) auto
  then show ?case
  proof
    assume "st' = st" then show ?thesis by simp
  next
    assume "\<exists>m \<in> set (f st). length (fst (snd m)) < length (fst (snd st)) \<and> st' \<in> set (iter f m)"
    then obtain m where m: "m \<in> set (f st)" "length (fst (snd m)) < length (fst (snd st))" "st' \<in> set (iter f m)"
      by blast
    have "capKeys m \<subseteq> capKeys st'" using "1.IH"[of m st'] m "1.prems"(1) by simp
    moreover have "capKeys st \<subseteq> capKeys m" using "1.prems"(1) m(1) by blast
    ultimately show ?thesis by blast
  qed
qed

lemma rmatch_keys: "st' \<in> set (rmatch r st) \<Longrightarrow> capKeys st \<subseteq> capKeys st'"
proof (induction r arbitrary: st st')
  case (Lit s) then show ?case by (auto simp: capKeys_def split: prod.splits if_splits)
next
  case (Cls k) then show ?case by (auto simp: capKeys_def split: prod.splits if_splits list.splits)
next
  case Bol then show ?case by (auto split: prod.splits if_splits)
next
  case Eol then show ?case by (auto split: prod.splits if_splits)
next
  case (Seq a b)
  from Seq.prems obtain m where m: "m \<in> set (rmatch a st)" "st' \<in> set (rmatch b m)" by auto
  show ?case using Seq.IH(1)[OF m(1)] Seq.IH(2)[OF m(2)] by blast
next
  case (Alt a b)
  from Alt.prems have "st' \<in> set (rmatch a st) \<or> st' \<in> set (rmatch b st)" by simp
  then show ?case using Alt.IH by blast
next
  case (Opt a)
  from Opt.prems have "st' \<in> set (rmatch a st) \<or> st' = st" by auto
  then show ?case using Opt.IH by blast
next
  case (Star a)
  then show ?case using iter_keys[of "rmatch a"] by simp
next
  case (Plus a)
  from Plus.prems obtain m where m: "m \<in> set (rmatch a st)" "st' \<in> set (iter (rmatch a) m)" by auto
  have "capKeys m \<subseteq> capKeys st'" using iter_keys[of "rmatch a" st' m] Plus.IH m(2) by blast
  moreover have "capKeys st \<subseteq> capKeys m" using Plus.IH m(1) by blast
  ultimately show ?case by blast
next
  case (Grp n a)
  from Grp.prems obtain m where m: "m \<in> set (rmatch a st)"
    and st': "st' = (fst m, fst (snd m), (n, take (fst m - fst st) (fst (snd st))) # snd (snd m))"
    by (auto split: prod.splits)
  have "capKeys st \<subseteq> capKeys m" using Grp.IH[OF m] .
  then show ?case unfolding st' by (auto simp: capKeys_def)
qed

lemma rmatch_mustCapture:
  "mustCapture n r \<Longrightarrow> st' \<in> set (rmatch r st) \<Longrightarrow> n \<in> capKeys st'"
proof (induction r arbitrary: st st')
  case (Seq a b)
  from Seq.prems(2) obtain m where m: "m \<in> set (rmatch a st)" "st' \<in> set (rmatch b m)" by auto
  show ?case
  proof (cases "mustCapture n a")
    case True
    then have "n \<in> capKeys m" using Seq.IH(1) m(1) by blast
    then show ?thesis using rmatch_keys[OF m(2)] by blast
  next
    case False
    then have "mustCapture n b" using Seq.prems(1) by simp
    then show ?thesis using Seq.IH(2) m(2) by blast
  qed
next
  case (Alt a b)
  from Alt.prems have "st' \<in> set (rmatch a st) \<or> st' \<in> set (rmatch b st)"
    and "mustCapture n a" "mustCapture n b" by simp_all
  then show ?case using Alt.IH by blast
next
  case (Plus a)
  from Plus.prems obtain m where m: "m \<in> set (rmatch a st)" "st' \<in> set (iter (rmatch a) m)" by auto
  have "n \<in> capKeys m" using Plus m(1) by simp
  moreover have "capKeys m \<subseteq> capKeys st'" using iter_keys[of "rmatch a" st' m] rmatch_keys m(2) by blast
  ultimately show ?case by blast
next
  case (Grp k a)
  show ?case
  proof (cases "k = n")
    case True
    then show ?thesis using Grp.prems(2) by (auto simp: capKeys_def split: prod.splits)
  next
    case False
    then have ma: "mustCapture n a" using Grp.prems(1) by simp
    from Grp.prems(2) obtain m where m: "m \<in> set (rmatch a st)"
      and st': "st' = (fst m, fst (snd m), (k, take (fst m - fst st) (fst (snd st))) # snd (snd m))"
      by (auto split: prod.splits)
    have "n \<in> capKeys m" using Grp.IH[OF ma m] .
    then show ?thesis unfolding st' by (simp add: capKeys_def)
  qed
qed simp_all

lemma execAt_mustCapture:
  assumes "mustCapture n r" "execAt r s i = Some m"
  shows "\<exists>v. grp m n = Some v"
proof -
  from assms(2) obtain st rest where st: "rmatch r (i, drop i s, []) = st # rest" "m = snd (snd st)"
    by (auto simp: execAt_def split: list.splits)
  then have "st \<in> set (rmatch r (i, drop i s, []))" by simp
  then have "n \<in> capKeys st" using rmatch_mustCapture[OF assms(1)] by blast
  then have "n \<in> fst ` set m" using st(2) by (simp add: capKeys_def)
  then show ?thesis unfolding grp_def by (metis map_of_eq_None_iff not_None_eq)
qed

lemma find_SomeD: "List.find P xs = Some x \<Longrightarrow> P x \<and> x \<in> set xs"
  by (induction xs) (auto split: if_splits)

lemma match_Some_execAt: "match s r = Some m \<Longrightarrow> \<exists>i \<le> length s. execAt r s i = Some m"
proof -
  assume a: "match s r = Some m"
  then obtain i where i: "search r s = Some i" "execAt r s i = Some m"
    by (auto simp: match_def split: option.splits)
  from i(1) have "i \<in> set [0..<Suc (length s)]"
    unfolding search_def by (blast dest: find_SomeD)
  then have "i \<le> length s" by auto
  then show ?thesis using i(2) by blast
qed

lemma match_mustCapture:
  "mustCapture n r \<Longrightarrow> match s r = Some m \<Longrightarrow> \<exists>v. grp m n = Some v"
  using execAt_mustCapture match_Some_execAt by blast

lemma mustCapture_patterns:
  "mustCapture 1 rePyClass" "mustCapture 1 rePyDef" "mustCapture 1 rePyImport"
  "mustCapture 1 reJsClass" "mustCapture 1 reJsImport"
  "mustCapture 1 reCClass" "mustCapture 1 reCFunc" "mustCapture 1 reCInclude"
  by (simp_all add: rePyClass_def rePyDef_def rePyImport_def reJsClass_def reJsImport_def
      reCClass_def reCFunc_def reCInclude_def seqs_def)

subsection \<open>The two strategies of determineEndLine\<close>

lemma execAt_reNonSpace:
  "execAt reNonSpace s i = (if i < length s \<and> \<not> isSpace (s ! i) then Some [] else None)"
proof (cases "i < length s")
  case True
  then have "drop i s = s ! i # drop (Suc i) s" by (simp add: Cons_nth_drop_Suc)
  then show ?thesis using True by (simp add: execAt_def reNonSpace_def)
next
  case False
  then show ?thesis by (simp add: execAt_def reNonSpace_def)
qed

lemma takeWhile_lt: "\<not> list_all P s \<Longrightarrow> length (takeWhile P s) < length s"
  by (induction s) auto

lemma search_reNonSpace:
  "search reNonSpace s = (if blank s then None else Some (indentation s))"
proof (cases "blank s")
  case True
  then have "\<And>i. i < length s \<Longrightarrow> isSpace (s ! i)"
    by (simp add: blank_def list_all_length)
  then have "List.find (\<lambda>i. execAt reNonSpace s i \<noteq> None) [0..<Suc (length s)] = None"
    unfolding find_None_iff by (auto simp: execAt_reNonSpace)
  then show ?thesis using True by (simp add: search_def)
next
  case False
  let ?k = "length (takeWhile isSpace s)"
  have k: "?k < length s" using False by (simp add: blank_def takeWhile_lt)
  have nk: "\<not> isSpace (s ! ?k)" using k nth_length_takeWhile by blast
  have before: "\<And>j. j < ?k \<Longrightarrow> isSpace (s ! j)"
    by (metis nth_mem set_takeWhileD takeWhile_nth)
  have "List.find (\<lambda>i. execAt reNonSpace s i \<noteq> None) [0..<Suc (length s)] = Some ?k"
    unfolding find_Some_iff
  proof (intro exI[of _ ?k] conjI allI impI)
    show "?k < length [0..<Suc (length s)]" using k by simp
    have "[0..<Suc (length s)] ! ?k = ?k" using k by (metis add_0 less_Suc_eq nth_upt)
    then show "execAt reNonSpace s ([0..<Suc (length s)] ! ?k) \<noteq> None"
      and "?k = [0..<Suc (length s)] ! ?k"
      using k nk by (simp_all add: execAt_reNonSpace)
  next
    fix j assume j: "j < ?k"
    then have "[0..<Suc (length s)] ! j = j" using k by (metis add_0 less_Suc_eq less_trans nth_upt)
    then show "\<not> execAt reNonSpace s ([0..<Suc (length s)] ! j) \<noteq> None"
      using before[OF j] by (simp add: execAt_reNonSpace)
  qed
  then show ?thesis using False by (simp add: search_def indentation_def)
qed

lemma trim_Nil_iff: "trim l = [] \<longleftrightarrow> blank l"
proof
  assume "blank l"
  then have d: "dropWhile isSpace l = []"
    unfolding blank_def list_all_iff dropWhile_eq_Nil_conv .
  show "trim l = []" unfolding trim_def d by simp
next
  assume t: "trim l = []"
  show "blank l"
  proof (rule ccontr)
    assume "\<not> blank l"
    then have ne: "dropWhile isSpace l \<noteq> []"
      unfolding blank_def list_all_iff dropWhile_eq_Nil_conv .
    then have "\<not> isSpace (hd (dropWhile isSpace l))" by (rule hd_dropWhile)
    moreover have "hd (dropWhile isSpace l) \<in> set (rev (dropWhile isSpace l))" using ne by simp
    ultimately have "dropWhile isSpace (rev (dropWhile isSpace l)) \<noteq> []"
      by (metis dropWhile_eq_Nil_conv)
    then show False using t by (simp add: trim_def)
  qed
qed

lemma pyScan_find:
  "pyScan lines ind i =
     (case List.find (\<lambda>j. \<not> blank (lines ! j) \<and> indentation (lines ! j) \<le> ind) [i..<length lines] of
        Some j \<Rightarrow> j | None \<Rightarrow> length lines)"
proof (induction lines ind i rule: pyScan.induct)
  case (1 lines ind i)
  show ?case
  proof (cases "i < length lines")
    case False
    then show ?thesis by (subst pyScan.simps) simp
  next
    case True
    then have upt: "[i..<length lines] = i # [Suc i..<length lines]" by (simp add: upt_conv_Cons)
    show ?thesis
    proof (cases "blank (lines ! i)")
      case b: True
      then show ?thesis using True "1.IH"(1)[OF True refl]
        by (subst pyScan.simps) (simp add: upt trim_Nil_iff)
    next
      case b: False
      then have s: "search reNonSpace (lines ! i) = Some (indentation (lines ! i))"
        by (simp add: search_reNonSpace)
      show ?thesis
      proof (cases "indentation (lines ! i) \<le> ind")
        case True
        then show ?thesis using \<open>i < length lines\<close> b s
          by (subst pyScan.simps) (simp add: upt trim_Nil_iff)
      next
        case False
        then show ?thesis using \<open>i < length lines\<close> b s "1.IH"(3)[OF \<open>i < length lines\<close> refl _ s False]
          by (subst pyScan.simps) (simp add: upt trim_Nil_iff)
      qed
    qed
  qed
qed

lemma blockEndsAt_fun:
  "blockEndsAt lines s = (\<lambda>i. \<not> blank (lines ! i) \<and> indentation (lines ! i) \<le> indentation (lines ! s))"
  by (rule ext) (simp add: blockEndsAt_def)

lemma determineEndLine_PYTHON:
  "s < length lines \<Longrightarrow> determineEndLine lines s PYTHON = Inr (indentationEnd lines s)"
  by (simp add: determineEndLine_def search_reNonSpace indentationEnd_def pyScan_find blockEndsAt_fun)

lemma matchCount_pos: "0 < matchCount c l \<longleftrightarrow> c \<in> set l"
  by (induction l) (auto simp: matchCount_def)

lemma balance_step: "i \<le> j \<Longrightarrow> balance lines i j = braceDelta (lines ! i) + balance lines (Suc i) j"
  by (simp add: balance_def upt_conv_Cons del: upt_Suc)

lemma seenOpen_step:
  "i \<le> j \<Longrightarrow> seenOpen lines i j = (CHR ''{'' \<in> set (lines ! i) \<or> seenOpen lines (Suc i) j)"
  by (simp add: seenOpen_def upt_conv_Cons del: upt_Suc)

lemma braceScan_find:
  "braceScan lines s0 bc fb i =
     (case List.find (\<lambda>j. (fb \<or> seenOpen lines i j) \<and> bc + balance lines i j \<le> 0) [i..<length lines] of
        Some j \<Rightarrow> j + 1 | None \<Rightarrow> min (s0 + 20) (length lines))"
proof (induction lines s0 bc fb i rule: braceScan.induct)
  case (1 lines s0 bc fb i)
  show ?case
  proof (cases "i < length lines")
    case False
    then show ?thesis by (subst braceScan.simps) simp
  next
    case True
    let ?line = "lines ! i"
    let ?bc = "bc + int (matchCount CHR ''{'' ?line) - int (matchCount CHR ''}'' ?line)"
    let ?fb = "if matchCount CHR ''{'' ?line > 0 then True else fb"
    have upt: "[i..<length lines] = i # [Suc i..<length lines]" using True by (simp add: upt_conv_Cons)
    have here: "((fb \<or> seenOpen lines i i) \<and> bc + balance lines i i \<le> 0) = (?fb \<and> ?bc \<le> 0)"
      by (auto simp: seenOpen_def balance_def braceDelta_def matchCount_pos)
    have later: "List.find (\<lambda>j. (fb \<or> seenOpen lines i j) \<and> bc + balance lines i j \<le> 0) [Suc i..<length lines]
        = List.find (\<lambda>j. (?fb \<or> seenOpen lines (Suc i) j) \<and> ?bc + balance lines (Suc i) j \<le> 0) [Suc i..<length lines]"
    proof (rule find_cong[OF refl])
      fix j assume "j \<in> set [Suc i..<length lines]"
      then have ij: "i \<le> j" by simp
      show "((fb \<or> seenOpen lines i j) \<and> bc + balance lines i j \<le> 0) =
            ((?fb \<or> seenOpen lines (Suc i) j) \<and> ?bc + balance lines (Suc i) j \<le> 0)"
        using balance_step[OF ij, of lines] seenOpen_step[OF ij, of lines]
        by (auto simp: braceDelta_def matchCount_pos)
    qed
    show ?thesis
    proof (cases "?fb \<and> ?bc \<le> 0")
      case t: True
      have "braceScan lines s0 bc fb i = i + 1"
        using True t by (subst braceScan.simps) (simp add: Let_def)
      then show ?thesis using here t by (simp add: upt)
    next
      case f: False
      have "braceScan lines s0 bc fb i = braceScan lines s0 ?bc ?fb (i + 1)"
        using True f by (subst braceScan.simps) (auto simp add: Let_def)
      also have "\<dots> = (case List.find (\<lambda>j. (?fb \<or> seenOpen lines (Suc i) j) \<and> ?bc + balance lines (Suc i) j \<le> 0) [Suc i..<length lines] of
        Some j \<Rightarrow> j + 1 | None \<Rightarrow> min (s0 + 20) (length lines))"
        using "1.IH"[OF True refl refl refl] f by simp
      also have "\<dots> = (case List.find (\<lambda>j. (fb \<or> seenOpen lines i j) \<and> bc + balance lines i j \<le> 0) [Suc i..<length lines] of
        Some j \<Rightarrow> j + 1 | None \<Rightarrow> min (s0 + 20) (length lines))"
        by (simp only: later)
      also have "\<dots> = (case List.find (\<lambda>j. (fb \<or> seenOpen lines i j) \<and> bc + balance lines i j \<le> 0) [i..<length lines] of
        Some j \<Rightarrow> j + 1 | None \<Rightarrow> min (s0 + 20) (length lines))"
      proof -
        from here f have "\<not> ((fb \<or> seenOpen lines i i) \<and> bc + balance lines i i \<le> 0)" by blast
        then show ?thesis unfolding upt by (simp only: find.simps if_False)
      qed
      finally show ?thesis .
    qed
  qed
qed

lemma blockCloses_fun:
  "blockCloses lines s = (\<lambda>i. seenOpen lines s i \<and> balance lines s i \<le> 0)"
  by (rule ext) (simp add: blockCloses_def)

lemma determineEndLine_brace:
  "type \<noteq> PYTHON \<Longrightarrow> determineEndLine lines s type = Inr (braceEnd lines s)"
  by (simp add: determineEndLine_def braceScan_find braceEnd_def blockCloses_fun)

subsection \<open>What one line pushes\<close>

lemma find_range: "List.find P [a..<b] = Some j \<Longrightarrow> a \<le> j \<and> j < b"
  using find_SomeD[of P "[a..<b]" j] by simp

lemma indentationEnd_bounds:
  "s < length lines \<Longrightarrow> s + 1 \<le> indentationEnd lines s \<and> indentationEnd lines s \<le> length lines"
  by (auto simp: indentationEnd_def split: option.splits dest!: find_range)

lemma braceEnd_bounds:
  "s < length lines \<Longrightarrow> s + 1 \<le> braceEnd lines s \<and> braceEnd lines s \<le> length lines"
  by (auto simp: braceEnd_def split: option.splits dest!: find_range)

lemma endLineOf_ok:
  "index < length lines \<Longrightarrow>
   \<exists>e. endLineOf lines index type = Inr e \<and> index + 1 \<le> e \<and> e \<le> length lines"
proof (cases "type = PYTHON")
  case True
  assume "index < length lines"
  then show ?thesis using True indentationEnd_bounds[of index lines]
    by (simp add: endLineOf_def determineEndLine_PYTHON)
next
  case False
  assume "index < length lines"
  then show ?thesis using False braceEnd_bounds[of index lines]
    by (simp add: endLineOf_def determineEndLine_brace)
qed

lemma pushedOk_empty: "pushedOk fileNodes f fileId lines index ([], [], cur)"
  by (simp add: pushedOk_def)

lemma importLinks_ok:
  "list_all (\<lambda>l. linkType l = CONTAINS \<or> (linkType l = IMPORT \<and> importOk fileNodes f fileId l))
     (importLinks fileNodes f fileId test)"
  by (auto simp: importLinks_def list_all_iff importOk_def list_ex_iff)

lemma jsClass_ok:
  assumes "index < length lines"
  shows "\<exists>out. jsClass depth f fileId lines cur index line = Inr out \<and>
           pushedOk fileNodes f fileId lines index out"
proof -
  from endLineOf_ok[OF assms, of JS] obtain e where
    e: "endLineOf lines index JS = Inr e" "index + 1 \<le> e" "e \<le> length lines" by blast
  show ?thesis
    using e match_mustCapture[OF mustCapture_patterns(4), of line]
    by (auto simp: jsClass_def pushedOk_def nodeOk_def generateId_def Let_def split: option.splits)
qed

lemma cClass_ok:
  assumes "index < length lines"
  shows "\<exists>out. cClass depth f fileId lines cur index line = Inr out \<and>
           pushedOk fileNodes f fileId lines index out"
proof -
  from endLineOf_ok[OF assms, of C_CPP] obtain e where
    e: "endLineOf lines index C_CPP = Inr e" "index + 1 \<le> e" "e \<le> length lines" by blast
  show ?thesis
    using e match_mustCapture[OF mustCapture_patterns(6), of line]
    by (auto simp: cClass_def pushedOk_def nodeOk_def generateId_def Let_def split: option.splits)
qed

lemma cFunction_ok:
  assumes "index < length lines"
  shows "\<exists>out. cFunction depth f fileId lines cur index line = Inr out \<and>
           pushedOk fileNodes f fileId lines index out"
proof -
  from endLineOf_ok[OF assms, of C_CPP] obtain e where
    e: "endLineOf lines index C_CPP = Inr e" "index + 1 \<le> e" "e \<le> length lines" by blast
  show ?thesis
    using e match_mustCapture[OF mustCapture_patterns(7), of line]
    by (auto simp: cFunction_def pushedOk_def nodeOk_def generateId_def Let_def split: option.splits)
qed

lemma pyFunction_ok:
  assumes "index < length lines"
  shows "\<exists>out. pyFunction depth f fileId lines cur index line = Inr out \<and>
           pushedOk fileNodes f fileId lines index out"
proof -
  from endLineOf_ok[OF assms, of PYTHON] obtain e where
    e: "endLineOf lines index PYTHON = Inr e" "index + 1 \<le> e" "e \<le> length lines" by blast
  show ?thesis
    using e match_mustCapture[OF mustCapture_patterns(2), of line]
    by (auto simp: pyFunction_def pushedOk_def nodeOk_def generateId_def Let_def split: option.splits)
qed

lemma truthy_Some: "truthy a \<Longrightarrow> \<exists>v. a = Some v"
  by (auto simp: truthy_def split: option.splits)

lemma jsFunction_ok:
  assumes "index < length lines"
  shows "\<exists>out. jsFunction depth f fileId lines cur index line = Inr out \<and>
           pushedOk fileNodes f fileId lines index out"
proof -
  from endLineOf_ok[OF assms, of JS] obtain e where
    e: "endLineOf lines index JS = Inr e" "index + 1 \<le> e" "e \<le> length lines" by blast
  show ?thesis
    using e
    by (auto simp: jsFunction_def pushedOk_def nodeOk_def generateId_def Let_def
        split: option.splits dest: truthy_Some)
qed

lemma pyClass_ok:
  assumes "index < length lines"
  shows "pyClass depth f fileId lines index line = None \<or>
         (\<exists>out. pyClass depth f fileId lines index line = Some (Inr out) \<and>
           pushedOk fileNodes f fileId lines index out)"
proof -
  from endLineOf_ok[OF assms, of PYTHON] obtain e where
    e: "endLineOf lines index PYTHON = Inr e" "index + 1 \<le> e" "e \<le> length lines" by blast
  show ?thesis
    using e match_mustCapture[OF mustCapture_patterns(1), of line]
    by (auto simp: pyClass_def pushedOk_def nodeOk_def generateId_def Let_def split: option.splits)
qed

lemma pyImports_ok:
  "\<exists>out. pyImports fileNodes f fileId line cur = Inr out \<and>
         pushedOk fileNodes f fileId lines index out"
  using match_mustCapture[OF mustCapture_patterns(3), of line] importLinks_ok[of fileNodes f fileId]
  by (auto simp: pyImports_def pushedOk_def split: option.splits)

lemma jsImports_ok:
  "\<exists>out. jsImports fileNodes f fileId line cur = Inr out \<and>
         pushedOk fileNodes f fileId lines index out"
  using match_mustCapture[OF mustCapture_patterns(5), of line] importLinks_ok[of fileNodes f fileId]
  by (auto simp: jsImports_def pushedOk_def Let_def split: option.splits dest: truthy_Some)

lemma cIncludes_ok:
  "\<exists>out. cIncludes fileNodes f fileId line cur = Inr out \<and>
         pushedOk fileNodes f fileId lines index out"
  using match_mustCapture[OF mustCapture_patterns(8), of line] importLinks_ok[of fileNodes f fileId]
  by (auto simp: cIncludes_def pushedOk_def Let_def split: option.splits dest: truthy_Some)

lemma thenDo_ok:
  assumes "\<exists>out. a = Inr out \<and> pushedOk fileNodes f fileId lines index out"
    and "\<And>c. \<exists>out. b c = Inr out \<and> pushedOk fileNodes f fileId lines index out"
  shows "\<exists>out. thenDo a b = Inr out \<and> pushedOk fileNodes f fileId lines index out"
proof -
  from assms(1) obtain ns ls c where a: "a = Inr (ns, ls, c)"
    and oka: "pushedOk fileNodes f fileId lines index (ns, ls, c)" by (metis prod_cases3)
  from assms(2)[of c] obtain ns' ls' c' where b: "b c = Inr (ns', ls', c')"
    and okb: "pushedOk fileNodes f fileId lines index (ns', ls', c')" by (metis prod_cases3)
  show ?thesis using a b oka okb by (simp add: thenDo_def pushedOk_def)
qed

lemma processLine_ok:
  assumes "index < length lines"
  shows "\<exists>out. processLine fileNodes depth f fileId lines cur index line = Inr out \<and>
           pushedOk fileNodes f fileId lines index out"
proof -
  have py: "\<exists>out. pythonLine fileNodes depth f fileId lines cur index line = Inr out \<and>
           pushedOk fileNodes f fileId lines index out"
  proof (cases "pyClass depth f fileId lines index line")
    case None
    have "\<exists>out. thenDo (pyFunction depth f fileId lines cur index line)
              (pyImports fileNodes f fileId line) = Inr out \<and>
           pushedOk fileNodes f fileId lines index out"
      by (intro thenDo_ok pyFunction_ok pyImports_ok assms)
    then show ?thesis using None by (simp add: pythonLine_def)
  next
    case (Some r)
    then show ?thesis using pyClass_ok[OF assms, of depth f fileId line fileNodes]
      by (auto simp: pythonLine_def)
  qed
  have js: "\<exists>out. jsLine fileNodes depth f fileId lines cur index line = Inr out \<and>
           pushedOk fileNodes f fileId lines index out"
    unfolding jsLine_def
    by (intro thenDo_ok jsClass_ok jsFunction_ok jsImports_ok assms)
  have c: "\<exists>out. cLine fileNodes depth f fileId lines cur index line = Inr out \<and>
           pushedOk fileNodes f fileId lines index out"
    unfolding cLine_def
    by (intro thenDo_ok cClass_ok cFunction_ok cIncludes_ok assms)
  show ?thesis using py js c by (simp add: processLine_def pushedOk_empty)
qed

subsection \<open>The two passes\<close>

lemma map_of_mapSet: "map_of (mapSet m k v) = (map_of m)(k \<mapsto> v)"
  by (induction m k v rule: mapSet.induct) auto

lemma set_mapSet: "set (mapSet m k v) \<subseteq> insert (k, v) (set m)"
  by (induction m k v rule: mapSet.induct) auto

lemma fileNodesOf_snoc:
  "fileNodesOf (fs @ [g]) = mapSet (fileNodesOf fs) (path g) (''FILE:'' @ path g)"
  by (simp add: fileNodesOf_def)

lemma fileNodesOf_values: "(p, v) \<in> set (fileNodesOf files) \<Longrightarrow> v = ''FILE:'' @ p"
proof (induction files arbitrary: p v rule: rev_induct)
  case Nil
  then show ?case by (simp add: fileNodesOf_def)
next
  case (snoc g fs)
  then show ?case using set_mapSet[of "fileNodesOf fs" "path g" "''FILE:'' @ path g"]
    unfolding fileNodesOf_snoc by blast
qed

lemma mapGet_fileNodesOf:
  "f \<in> set files \<Longrightarrow> mapGet (fileNodesOf files) (path f) = Some (''FILE:'' @ path f)"
proof (induction files rule: rev_induct)
  case Nil
  then show ?case by simp
next
  case (snoc g fs)
  then show ?case
    by (cases "path g = path f") (auto simp: mapGet_def fileNodesOf_snoc map_of_mapSet)
qed

lemma pushedOk_inv:
  assumes "f \<in> set files" "pushedOk (fileNodesOf files) f (''FILE:'' @ path f) (split CHR 0x0A (content f)) i (ns, ls, c)"
  shows "list_all (nodeInv files) ns \<and> list_all (linkInv files) ls"
  using assms by (auto simp: pushedOk_def list_all_iff nodeInv_def linkInv_def)

lemma forEachLine_inv:
  assumes f: "f \<in> set files"
  shows "(\<forall>p \<in> set xs. fst p < length (split CHR 0x0A (content f))) \<Longrightarrow>
     list_all (nodeInv files) nodesA \<Longrightarrow> list_all (linkInv files) linksA \<Longrightarrow>
     \<exists>ns ls c. forEachLine (fileNodesOf files) depth f (''FILE:'' @ path f)
                 (split CHR 0x0A (content f)) (nodesA, linksA, cur) xs = Inr (ns, ls, c) \<and>
               list_all (nodeInv files) ns \<and> list_all (linkInv files) ls"
proof (induction xs arbitrary: nodesA linksA cur)
  case Nil
  then show ?case by simp
next
  case (Cons x xs)
  obtain index line where x: "x = (index, line)" by (cases x)
  have idx: "index < length (split CHR 0x0A (content f))" using Cons.prems(1) x by simp
  from processLine_ok[OF idx, of "fileNodesOf files" depth f "''FILE:'' @ path f" cur line]
  obtain ns1 ls1 c1 where
    pl: "processLine (fileNodesOf files) depth f (''FILE:'' @ path f) (split CHR 0x0A (content f))
           cur index line = Inr (ns1, ls1, c1)"
    and ok: "pushedOk (fileNodesOf files) f (''FILE:'' @ path f) (split CHR 0x0A (content f)) index (ns1, ls1, c1)"
    by (metis prod_cases3)
  from pushedOk_inv[OF f ok] have n1: "list_all (nodeInv files) ns1" and l1: "list_all (linkInv files) ls1"
    by simp_all
  have "\<exists>ns ls c. forEachLine (fileNodesOf files) depth f (''FILE:'' @ path f)
                 (split CHR 0x0A (content f)) (nodesA @ ns1, linksA @ ls1, c1) xs = Inr (ns, ls, c) \<and>
               list_all (nodeInv files) ns \<and> list_all (linkInv files) ls"
    using Cons.IH[of "nodesA @ ns1" "linksA @ ls1" c1] Cons.prems n1 l1 by simp
  then show ?case using pl x by simp
qed

lemma enumerate_fst: "p \<in> set (enumerate 0 xs) \<Longrightarrow> fst p < length xs"
  by (cases p) (simp add: in_set_enumerate_eq)

lemma processFile_inv:
  assumes "f \<in> set files" "list_all (nodeInv files) (fst st)" "list_all (linkInv files) (snd st)"
  shows "\<exists>st'. processFile (fileNodesOf files) depth st f = Inr st' \<and>
           list_all (nodeInv files) (fst st') \<and> list_all (linkInv files) (snd st')"
proof -
  from forEachLine_inv[OF assms(1), of "enumerate 0 (split CHR 0x0A (content f))" "fst st" "snd st" depth None]
  obtain ns ls c where
    "forEachLine (fileNodesOf files) depth f (''FILE:'' @ path f)
        (split CHR 0x0A (content f)) (fst st, snd st, None) (enumerate 0 (split CHR 0x0A (content f))) = Inr (ns, ls, c)"
    "list_all (nodeInv files) ns" "list_all (linkInv files) ls"
    using assms(2,3) enumerate_fst by blast
  then show ?thesis using mapGet_fileNodesOf[OF assms(1)]
    by (simp add: processFile_def Let_def)
qed

lemma forEachFile_inv:
  "set fs \<subseteq> set files \<Longrightarrow> list_all (nodeInv files) (fst st) \<Longrightarrow> list_all (linkInv files) (snd st) \<Longrightarrow>
   \<exists>st'. forEachFile (fileNodesOf files) depth st fs = Inr st' \<and>
         list_all (nodeInv files) (fst st') \<and> list_all (linkInv files) (snd st')"
proof (induction fs arbitrary: st)
  case Nil
  then show ?case by simp
next
  case (Cons f fs)
  then have "f \<in> set files" by simp
  from processFile_inv[OF this Cons.prems(2,3), of depth] obtain st1 where
    st1: "processFile (fileNodesOf files) depth st f = Inr st1"
      "list_all (nodeInv files) (fst st1)" "list_all (linkInv files) (snd st1)" by blast
  from Cons.IH[OF _ st1(2,3)] Cons.prems(1) show ?case using st1(1) by simp
qed

lemma fileNode_inv: "list_all (nodeInv files) (map fileNode fs)"
  by (simp add: list_all_iff nodeInv_def fileNode_def)

lemma analyzeCodebase_inv:
  "\<exists>r. analyzeCodebase files depth = Inr r \<and>
       list_all (nodeInv files) (nodes r) \<and> list_all (linkInv files) (links r)"
proof -
  from forEachFile_inv[of files files "(map fileNode files, [])" depth]
  obtain ns ls where "forEachFile (fileNodesOf files) depth (map fileNode files, []) files = Inr (ns, ls)"
    "list_all (nodeInv files) ns" "list_all (linkInv files) ls"
    using fileNode_inv[of files files] by auto
  then show ?thesis by (simp add: analyzeCodebase_def)
qed

subsection \<open>The effect of the depth\<close>

lemma startsWith_Cons: "startsWith s (c # cs) \<Longrightarrow> \<exists>t. s = c # t"
  by (cases s) (auto simp: startsWith_def)

lemma execAt_rePyClass: "execAt rePyClass s i = Some m \<Longrightarrow> startsWith s ''class''"
  by (auto simp: execAt_def rePyClass_def seqs_def split: if_splits list.splits)

lemma execAt_rePyImport:
  "execAt rePyImport s i = Some m \<Longrightarrow> startsWith s ''from'' \<or> startsWith s ''import''"
  by (auto simp: execAt_def rePyImport_def seqs_def split: if_splits list.splits)

lemma class_not_import: "match line rePyClass = Some m \<Longrightarrow> match line rePyImport = None"
proof (rule ccontr)
  assume a: "match line rePyClass = Some m" and "match line rePyImport \<noteq> None"
  then obtain m' where b: "match line rePyImport = Some m'" by blast
  from a obtain i where "execAt rePyClass line i = Some m" using match_Some_execAt by blast
  then obtain t where t: "line = CHR ''c'' # t" using execAt_rePyClass startsWith_Cons by blast
  from b obtain j where "execAt rePyImport line j = Some m'" using match_Some_execAt by blast
  then have "startsWith line ''from'' \<or> startsWith line ''import''" by (rule execAt_rePyImport)
  then show False using t by (auto dest!: startsWith_Cons)
qed

lemma relatedR_same: "relatedR (Inr (ns, ls, c1)) (Inr (ns, ls, c2))"
  by (simp add: relatedR_def related_def)

lemma thenDo_rel:
  assumes "relatedR a1 a2" "\<And>c1 c2. relatedR (b1 c1) (b2 c2)"
  shows "relatedR (thenDo a1 b1) (thenDo a2 b2)"
proof (cases a1)
  case (Inl e) then show ?thesis by (simp add: thenDo_def relatedR_def)
next
  case a1: (Inr o1)
  show ?thesis
  proof (cases a2)
    case (Inl e) then show ?thesis by (simp add: thenDo_def relatedR_def split: sum.splits prod.splits)
  next
    case a2: (Inr o2)
    obtain ns1 ls1 c1 where o1: "o1 = (ns1, ls1, c1)" by (cases o1)
    obtain ns2 ls2 c2 where o2: "o2 = (ns2, ls2, c2)" by (cases o2)
    show ?thesis using assms(1) assms(2)[of c1 c2] a1 a2 o1 o2
      by (auto simp: thenDo_def relatedR_def related_def split: sum.splits prod.splits)
  qed
qed

lemma jsClass_rel:
  "d \<le> d' \<Longrightarrow> relatedR (jsClass d f fileId lines c1 index line) (jsClass d' f fileId lines c2 index line)"
  by (auto simp: jsClass_def relatedR_def related_def isImport_def Let_def split: option.splits sum.splits)

lemma jsFunction_rel:
  "d \<le> d' \<Longrightarrow> relatedR (jsFunction d f fileId lines c1 index line) (jsFunction d' f fileId lines c2 index line)"
  by (auto simp: jsFunction_def relatedR_def related_def isImport_def Let_def split: option.splits sum.splits)

lemma cClass_rel:
  "d \<le> d' \<Longrightarrow> relatedR (cClass d f fileId lines c1 index line) (cClass d' f fileId lines c2 index line)"
  by (auto simp: cClass_def relatedR_def related_def isImport_def Let_def split: option.splits sum.splits)

lemma cFunction_rel:
  "d \<le> d' \<Longrightarrow> relatedR (cFunction d f fileId lines c1 index line) (cFunction d' f fileId lines c2 index line)"
  by (auto simp: cFunction_def relatedR_def related_def isImport_def Let_def split: option.splits sum.splits)

lemma pyFunction_rel:
  "d \<le> d' \<Longrightarrow> relatedR (pyFunction d f fileId lines c1 index line) (pyFunction d' f fileId lines c2 index line)"
  by (auto simp: pyFunction_def relatedR_def related_def isImport_def Let_def split: option.splits sum.splits)

lemma pyImports_rel: "relatedR (pyImports fileNodes f fileId line c1) (pyImports fileNodes f fileId line c2)"
  by (auto simp: pyImports_def relatedR_def related_def isImport_def split: option.splits)

lemma jsImports_rel: "relatedR (jsImports fileNodes f fileId line c1) (jsImports fileNodes f fileId line c2)"
  by (auto simp: jsImports_def relatedR_def related_def isImport_def Let_def split: option.splits)

lemma cIncludes_rel: "relatedR (cIncludes fileNodes f fileId line c1) (cIncludes fileNodes f fileId line c2)"
  by (auto simp: cIncludes_def relatedR_def related_def isImport_def Let_def split: option.splits)

lemma pyClass_rel:
  assumes "d \<le> d'"
  shows "pyClass d f fileId lines index line = Some r \<Longrightarrow> pyClass d' f fileId lines index line = Some r"
  using assms by (auto simp: pyClass_def split: if_splits option.splits)

lemma pyClass_no_import:
  "pyClass d f fileId lines index line = Some (Inr (ns, ls, c)) \<Longrightarrow>
     filter isImport ls = [] \<and> match line rePyImport = None"
  by (auto simp: pyClass_def isImport_def Let_def split: if_splits option.splits sum.splits
      dest: class_not_import)

lemma pyClass_low: "pyClass d f fileId lines index line = None \<Longrightarrow>
   pyClass d' f fileId lines index line = Some r \<Longrightarrow> d \<le> d' \<Longrightarrow> d < 2"
  by (auto simp: pyClass_def split: if_splits option.splits)

lemma pythonLine_rel:
  assumes "d \<le> d'"
  shows "relatedR (pythonLine fileNodes d f fileId lines c1 index line)
                  (pythonLine fileNodes d' f fileId lines c2 index line)"
proof (cases "pyClass d f fileId lines index line")
  case (Some r)
  then have "pyClass d' f fileId lines index line = Some r" using pyClass_rel[OF assms] by blast
  then show ?thesis using Some
    by (cases r) (auto simp: pythonLine_def relatedR_def related_def)
next
  case None
  show ?thesis
  proof (cases "pyClass d' f fileId lines index line")
    case n2: None
    show ?thesis using None n2
      by (simp add: pythonLine_def thenDo_rel pyFunction_rel[OF assms] pyImports_rel)
  next
    case s2: (Some r)
    have low: "d < 2" using pyClass_low[OF None s2 assms] .
    show ?thesis
    proof (cases r)
      case (Inl e)
      then show ?thesis using s2 by (simp add: pythonLine_def relatedR_def split: sum.splits)
    next
      case (Inr out)
      obtain ns ls c where out: "out = (ns, ls, c)" by (cases out)
      from pyClass_no_import[of d' f fileId lines index line ns ls c] s2 Inr out
      have ni: "filter isImport ls = []" "match line rePyImport = None" by simp_all
      have "pyFunction d f fileId lines c1 index line = Inr ([], [], c1)"
        using low by (simp add: pyFunction_def)
      then have "pythonLine fileNodes d f fileId lines c1 index line = Inr ([], [], c1)"
        using None ni(2) by (simp add: pythonLine_def thenDo_def pyImports_def)
      then show ?thesis using s2 Inr out ni(1)
        by (simp add: pythonLine_def relatedR_def related_def)
    qed
  qed
qed

lemma processLine_rel:
  assumes "d \<le> d'"
  shows "relatedR (processLine fileNodes d f fileId lines c1 index line)
                  (processLine fileNodes d' f fileId lines c2 index line)"
  unfolding processLine_def jsLine_def cLine_def
  by (auto intro!: thenDo_rel pythonLine_rel jsClass_rel jsFunction_rel jsImports_rel
        cClass_rel cFunction_rel cIncludes_rel assms relatedR_same
      simp del: not_None_eq)

lemma forEachLine_rel:
  assumes "d \<le> d'"
  shows "forEachLine fileNodes d f fileId lines st1 xs = Inr st1' \<Longrightarrow>
         forEachLine fileNodes d' f fileId lines st2 xs = Inr st2' \<Longrightarrow>
         related st1 st2 \<Longrightarrow> related st1' st2'"
proof (induction xs arbitrary: st1 st2)
  case Nil
  then show ?case by simp
next
  case (Cons x xs)
  obtain index line where x: "x = (index, line)" by (cases x)
  obtain n1 l1 c1 where st1: "st1 = (n1, l1, c1)" by (cases st1)
  obtain n2 l2 c2 where st2: "st2 = (n2, l2, c2)" by (cases st2)
  from Cons.prems(1) x st1 obtain ns1 ls1 c1' where
    p1: "processLine fileNodes d f fileId lines c1 index line = Inr (ns1, ls1, c1')"
    and r1: "forEachLine fileNodes d f fileId lines (n1 @ ns1, l1 @ ls1, c1') xs = Inr st1'"
    by (auto split: sum.splits)
  from Cons.prems(2) x st2 obtain ns2 ls2 c2' where
    p2: "processLine fileNodes d' f fileId lines c2 index line = Inr (ns2, ls2, c2')"
    and r2: "forEachLine fileNodes d' f fileId lines (n2 @ ns2, l2 @ ls2, c2') xs = Inr st2'"
    by (auto split: sum.splits)
  from processLine_rel[OF assms, of fileNodes f fileId lines c1 index line c2] p1 p2
  have "related (ns1, ls1, c1') (ns2, ls2, c2')" by (simp add: relatedR_def)
  then have "related (n1 @ ns1, l1 @ ls1, c1') (n2 @ ns2, l2 @ ls2, c2')"
    using Cons.prems(3) st1 st2 by (auto simp: related_def)
  then show ?case using Cons.IH[OF r1 r2] by blast
qed

lemma processFile_rel:
  assumes "d \<le> d'"
    and "processFile fileNodes d st1 f = Inr st1'" "processFile fileNodes d' st2 f = Inr st2'"
    and "related (fst st1, snd st1, c) (fst st2, snd st2, c)"
  shows "related (fst st1', snd st1', c) (fst st2', snd st2', c)"
proof -
  from assms(2) obtain fileId ns1 ls1 c1 where
    g: "mapGet fileNodes (path f) = Some fileId"
    and a1: "forEachLine fileNodes d f fileId (split CHR 0x0A (content f)) (fst st1, snd st1, None)
              (enumerate 0 (split CHR 0x0A (content f))) = Inr (ns1, ls1, c1)"
    and s1: "st1' = (ns1, ls1)"
    by (auto simp: processFile_def Let_def split: option.splits sum.splits)
  from assms(3) g obtain ns2 ls2 c2 where
    a2: "forEachLine fileNodes d' f fileId (split CHR 0x0A (content f)) (fst st2, snd st2, None)
              (enumerate 0 (split CHR 0x0A (content f))) = Inr (ns2, ls2, c2)"
    and s2: "st2' = (ns2, ls2)"
    by (auto simp: processFile_def Let_def split: option.splits sum.splits)
  have "related (fst st1, snd st1, None) (fst st2, snd st2, None)"
    using assms(4) by (simp add: related_def)
  from forEachLine_rel[OF assms(1) a1 a2 this] show ?thesis using s1 s2 by (simp add: related_def)
qed

lemma forEachFile_rel:
  assumes "d \<le> d'"
  shows "forEachFile fileNodes d st1 fs = Inr st1' \<Longrightarrow> forEachFile fileNodes d' st2 fs = Inr st2' \<Longrightarrow>
     related (fst st1, snd st1, None) (fst st2, snd st2, None) \<Longrightarrow>
     related (fst st1', snd st1', None) (fst st2', snd st2', None)"
proof (induction fs arbitrary: st1 st2)
  case Nil
  then show ?case by simp
next
  case (Cons f fs)
  from Cons.prems(1) obtain m1 where m1: "processFile fileNodes d st1 f = Inr m1"
    "forEachFile fileNodes d m1 fs = Inr st1'" by (auto split: sum.splits)
  from Cons.prems(2) obtain m2 where m2: "processFile fileNodes d' st2 f = Inr m2"
    "forEachFile fileNodes d' m2 fs = Inr st2'" by (auto split: sum.splits)
  from processFile_rel[OF assms m1(1) m2(1) Cons.prems(3)]
  show ?case using Cons.IH[OF m1(2) m2(2)] by blast
qed

lemma analyzeCodebase_mono:
  assumes "d \<le> d'" "analyzeCodebase files d = Inr r" "analyzeCodebase files d' = Inr r'"
  shows "set (nodes r) \<subseteq> set (nodes r') \<and> filter isImport (links r) = filter isImport (links r')"
proof -
  from assms(2) obtain ns ls where a: "forEachFile (fileNodesOf files) d (map fileNode files, []) files = Inr (ns, ls)"
    and r: "nodes r = ns" "links r = ls"
    by (auto simp: analyzeCodebase_def split: sum.splits)
  from assms(3) obtain ns' ls' where a': "forEachFile (fileNodesOf files) d' (map fileNode files, []) files = Inr (ns', ls')"
    and r': "nodes r' = ns'" "links r' = ls'"
    by (auto simp: analyzeCodebase_def split: sum.splits)
  from forEachFile_rel[OF assms(1) a a'] show ?thesis using r r' by (simp add: related_def)
qed

subsection \<open>The Contains links of one line\<close>

lemma linkFor_None: "linkFor fileId None l n \<Longrightarrow> linkFor fileId cur l n"
  by (simp add: linkFor_def)

lemma shapeF_shape: "shapeF fileId cur out \<Longrightarrow> shape fileId cur out"
  by (auto simp: shapeF_def shape_def split: prod.splits
      elim!: list_all2_mono intro: linkFor_None)

lemma importLinks_no_contains: "filter isContains (importLinks fileNodes f fileId test) = []"
  by (auto simp: importLinks_def isContains_def filter_empty_conv)

lemma jsClass_shapeF: "holds (shapeF fileId cur) (jsClass depth f fileId lines cur index line)"
  by (auto simp: jsClass_def holds_def shapeF_def linkFor_def isContains_def Let_def
      split: option.splits sum.splits)

lemma jsFunction_shapeF: "holds (shapeF fileId cur) (jsFunction depth f fileId lines cur index line)"
  by (auto simp: jsFunction_def holds_def shapeF_def linkFor_def isContains_def Let_def
      split: option.splits sum.splits)

lemma cClass_shapeF: "holds (shapeF fileId cur) (cClass depth f fileId lines cur index line)"
  by (auto simp: cClass_def holds_def shapeF_def linkFor_def isContains_def Let_def
      split: option.splits sum.splits)

lemma cFunction_shapeF: "holds (shapeF fileId cur) (cFunction depth f fileId lines cur index line)"
  by (auto simp: cFunction_def holds_def shapeF_def linkFor_def isContains_def Let_def
      split: option.splits sum.splits)

lemma pyImports_shapeF: "holds (shapeF fileId cur) (pyImports fileNodes f fileId line cur)"
  by (auto simp: pyImports_def holds_def shapeF_def importLinks_no_contains split: option.splits)

lemma jsImports_shapeF: "holds (shapeF fileId cur) (jsImports fileNodes f fileId line cur)"
  by (auto simp: jsImports_def holds_def shapeF_def importLinks_no_contains Let_def
      split: option.splits)

lemma cIncludes_shapeF: "holds (shapeF fileId cur) (cIncludes fileNodes f fileId line cur)"
  by (auto simp: cIncludes_def holds_def shapeF_def importLinks_no_contains Let_def
      split: option.splits)

lemma pyFunction_shape: "holds (shape fileId cur) (pyFunction depth f fileId lines cur index line)"
  by (auto simp: pyFunction_def holds_def shape_def linkFor_def isContains_def Let_def
      split: option.splits sum.splits)

lemma pyClass_shape:
  "pyClass depth f fileId lines index line = Some r \<Longrightarrow> holds (shape fileId cur) r"
  by (auto simp: pyClass_def holds_def shape_def linkFor_def isContains_def Let_def
      split: if_splits option.splits sum.splits)

lemma thenDo_shapeF:
  assumes "holds (shapeF fileId cur) a" "\<And>c. holds (shapeF fileId c) (b c)"
  shows "holds (shapeF fileId cur) (thenDo a b)"
proof (cases a)
  case (Inl e) then show ?thesis by (simp add: thenDo_def holds_def)
next
  case (Inr o1)
  obtain ns1 ls1 c1 where o1: "o1 = (ns1, ls1, c1)" by (cases o1)
  show ?thesis
  proof (cases "b c1")
    case (Inl e) then show ?thesis using Inr o1 by (simp add: thenDo_def holds_def)
  next
    case b: (Inr o2)
    obtain ns2 ls2 c2 where o2: "o2 = (ns2, ls2, c2)" by (cases o2)
    from assms(1) Inr o1 have 1: "list_all2 (linkFor fileId None) (filter isContains ls1) ns1" "c1 = cur"
      by (simp_all add: holds_def shapeF_def)
    from assms(2)[of c1] b o2 have 2: "list_all2 (linkFor fileId None) (filter isContains ls2) ns2" "c2 = c1"
      by (simp_all add: holds_def shapeF_def)
    show ?thesis using Inr o1 b o2 1 2
      by (simp add: thenDo_def holds_def shapeF_def list_all2_appendI)
  qed
qed

lemma thenDo_shape:
  assumes "holds (shape fileId cur) a" "\<And>c. holds (shapeF fileId c) (b c)"
  shows "holds (shape fileId cur) (thenDo a b)"
proof (cases a)
  case (Inl e) then show ?thesis by (simp add: thenDo_def holds_def)
next
  case (Inr o1)
  obtain ns1 ls1 c1 where o1: "o1 = (ns1, ls1, c1)" by (cases o1)
  show ?thesis
  proof (cases "b c1")
    case (Inl e) then show ?thesis using Inr o1 by (simp add: thenDo_def holds_def)
  next
    case b: (Inr o2)
    obtain ns2 ls2 c2 where o2: "o2 = (ns2, ls2, c2)" by (cases o2)
    from assms(1) Inr o1 have 1: "list_all2 (linkFor fileId cur) (filter isContains ls1) ns1"
      "c1 = cur \<or> c1 = None \<or> (\<exists>n \<in> set ns1. c1 = Some n \<and> nodeType n = CLASS)"
      by (simp_all add: holds_def shape_def)
    from assms(2)[of c1] b o2 have 2: "list_all2 (linkFor fileId None) (filter isContains ls2) ns2" "c2 = c1"
      by (simp_all add: holds_def shapeF_def)
    have "list_all2 (linkFor fileId cur) (filter isContains ls2) ns2"
      using 2(1) by (rule list_all2_mono) (rule linkFor_None)
    then have "list_all2 (linkFor fileId cur) (filter isContains (ls1 @ ls2)) (ns1 @ ns2)"
      using 1(1) by (simp add: list_all2_appendI)
    moreover have "c2 = cur \<or> c2 = None \<or> (\<exists>n \<in> set (ns1 @ ns2). c2 = Some n \<and> nodeType n = CLASS)"
      using 1(2) 2(2) by auto
    ultimately show ?thesis using Inr o1 b o2
      by (simp add: thenDo_def holds_def shape_def)
  qed
qed

lemma processLine_shape:
  "holds (shape fileId cur) (processLine fileNodes depth f fileId lines cur index line)"
proof -
  have py: "holds (shape fileId cur) (pythonLine fileNodes depth f fileId lines cur index line)"
  proof (cases "pyClass depth f fileId lines index line")
    case None
    then show ?thesis
      by (simp add: pythonLine_def thenDo_shape pyFunction_shape pyImports_shapeF)
  next
    case (Some r)
    then show ?thesis using pyClass_shape[OF Some] by (simp add: pythonLine_def)
  qed
  have js: "holds (shapeF fileId cur) (jsLine fileNodes depth f fileId lines cur index line)"
    unfolding jsLine_def
    by (intro thenDo_shapeF jsClass_shapeF jsFunction_shapeF jsImports_shapeF)
  have c: "holds (shapeF fileId cur) (cLine fileNodes depth f fileId lines cur index line)"
    unfolding cLine_def
    by (intro thenDo_shapeF cClass_shapeF cFunction_shapeF cIncludes_shapeF)
  have e: "holds (shape fileId cur) (Inr ([], [], cur))" by (simp add: holds_def shape_def)
  have h: "holds (shapeF fileId cur) r \<Longrightarrow> holds (shape fileId cur) r" for r
    by (auto simp: holds_def split: sum.splits intro: shapeF_shape)
  show ?thesis using py h[OF js] h[OF c] e by (simp add: processLine_def)
qed

subsection \<open>The Contains links of the graph\<close>

lemma edgeOk_mono: "set ns \<subseteq> set ns' \<Longrightarrow> edgeOk ns l n \<Longrightarrow> edgeOk ns' l n"
  by (auto simp: edgeOk_def)

lemma pushed_step:
  assumes t: "treeInv nodesA linksA" and c: "curInv nodesA cur"
    and fn: "\<exists>s \<in> set nodesA. nodeId s = fileId \<and> nodeType s = FILE"
    and sh: "shape fileId cur (ns, ls, cur')"
    and nf: "list_all (\<lambda>n. nodeType n \<noteq> FILE) ns"
  shows "treeInv (nodesA @ ns) (linksA @ ls) \<and> curInv (nodesA @ ns) cur'"
proof -
  from sh have l2: "list_all2 (linkFor fileId cur) (filter isContains ls) ns"
    and c': "cur' = cur \<or> cur' = None \<or> (\<exists>n \<in> set ns. cur' = Some n \<and> nodeType n = CLASS)"
    by (simp_all add: shape_def)
  have new: "list_all2 (edgeOk (nodesA @ ns)) (filter isContains ls) ns"
    using l2
  proof (rule list_all2_mono)
    fix l n assume "linkFor fileId cur l n"
    then show "edgeOk (nodesA @ ns) l n"
      using fn c by (auto simp: linkFor_def edgeOk_def curInv_def)
  qed
  have old: "list_all2 (edgeOk (nodesA @ ns)) (filter isContains linksA)
               (filter (\<lambda>n. nodeType n \<noteq> FILE) nodesA)"
    using t unfolding treeInv_def
    by (rule list_all2_mono) (auto intro: edgeOk_mono[of nodesA])
  have "filter (\<lambda>n. nodeType n \<noteq> FILE) ns = ns" using nf by (simp add: list_all_iff)
  then have "treeInv (nodesA @ ns) (linksA @ ls)"
    using old new by (simp add: treeInv_def list_all2_appendI)
  moreover have "curInv (nodesA @ ns) cur'"
    using c c' by (auto simp: curInv_def split: option.splits)
  ultimately show ?thesis by simp
qed

lemma pushedOk_nonFile:
  "pushedOk fileNodes f fileId lines index (ns, ls, c) \<Longrightarrow> list_all (\<lambda>n. nodeType n \<noteq> FILE) ns"
  by (auto simp: pushedOk_def nodeOk_def list_all_iff)

lemma forEachLine_tree:
  "(\<forall>p \<in> set xs. fst p < length lines) \<Longrightarrow> treeInv nodesA linksA \<Longrightarrow> curInv nodesA cur \<Longrightarrow>
   (\<exists>s \<in> set nodesA. nodeId s = fileId \<and> nodeType s = FILE) \<Longrightarrow>
   forEachLine fileNodes depth f fileId lines (nodesA, linksA, cur) xs = Inr (ns, ls, c) \<Longrightarrow>
   treeInv ns ls \<and> set nodesA \<subseteq> set ns"
proof (induction xs arbitrary: nodesA linksA cur)
  case Nil
  then show ?case by simp
next
  case (Cons x xs)
  obtain index line where x: "x = (index, line)" by (cases x)
  have idx: "index < length lines" using Cons.prems(1) x by simp
  from processLine_ok[OF idx, of fileNodes depth f fileId cur line]
  obtain ns1 ls1 c1 where
    pl: "processLine fileNodes depth f fileId lines cur index line = Inr (ns1, ls1, c1)"
    and ok: "pushedOk fileNodes f fileId lines index (ns1, ls1, c1)"
    by (metis prod_cases3)
  have sh: "shape fileId cur (ns1, ls1, c1)"
    using processLine_shape[of fileId cur fileNodes depth f lines index line] pl
    by (simp add: holds_def)
  from pushed_step[OF Cons.prems(2,3,4) sh pushedOk_nonFile[OF ok]]
  have t: "treeInv (nodesA @ ns1) (linksA @ ls1)" and c: "curInv (nodesA @ ns1) c1" by simp_all
  have fn: "\<exists>s \<in> set (nodesA @ ns1). nodeId s = fileId \<and> nodeType s = FILE"
    using Cons.prems(4) by auto
  have rest: "forEachLine fileNodes depth f fileId lines (nodesA @ ns1, linksA @ ls1, c1) xs = Inr (ns, ls, c)"
    using Cons.prems(5) pl x by simp
  from Cons.IH[OF _ t c fn rest] Cons.prems(1) show ?case by auto
qed

lemma processFile_tree:
  assumes "f \<in> set files" "treeInv (fst st) (snd st)" "fileNode ` set files \<subseteq> set (fst st)"
    and "processFile (fileNodesOf files) depth st f = Inr st'"
  shows "treeInv (fst st') (snd st') \<and> fileNode ` set files \<subseteq> set (fst st')"
proof -
  let ?lines = "split CHR 0x0A (content f)"
  from assms(4) mapGet_fileNodesOf[OF assms(1)] obtain ns ls c where
    a: "forEachLine (fileNodesOf files) depth f (''FILE:'' @ path f) ?lines
          (fst st, snd st, None) (enumerate 0 ?lines) = Inr (ns, ls, c)"
    and s: "st' = (ns, ls)"
    by (auto simp: processFile_def Let_def split: sum.splits)
  have fn: "\<exists>s \<in> set (fst st). nodeId s = ''FILE:'' @ path f \<and> nodeType s = FILE"
    using assms(1,3) by (auto simp: fileNode_def intro!: bexI[of _ "fileNode f"])
  have idx: "\<forall>p \<in> set (enumerate 0 ?lines). fst p < length ?lines"
    using enumerate_fst by blast
  from forEachLine_tree[OF idx assms(2) _ fn a] s assms(3)
  show ?thesis by (auto simp: curInv_def)
qed

lemma forEachFile_tree:
  "set fs \<subseteq> set files \<Longrightarrow> treeInv (fst st) (snd st) \<Longrightarrow> fileNode ` set files \<subseteq> set (fst st) \<Longrightarrow>
   forEachFile (fileNodesOf files) depth st fs = Inr st' \<Longrightarrow>
   treeInv (fst st') (snd st')"
proof (induction fs arbitrary: st)
  case Nil
  then show ?case by simp
next
  case (Cons f fs)
  from Cons.prems(4) obtain m where m: "processFile (fileNodesOf files) depth st f = Inr m"
    "forEachFile (fileNodesOf files) depth m fs = Inr st'" by (auto split: sum.splits)
  have f: "f \<in> set files" using Cons.prems(1) by simp
  from processFile_tree[OF f Cons.prems(2,3) m(1)]
  show ?case using Cons.IH[OF _ _ _ m(2)] Cons.prems(1) by simp
qed

lemma analyzeCodebase_tree:
  "analyzeCodebase files depth = Inr r \<Longrightarrow> treeInv (nodes r) (links r)"
proof -
  assume "analyzeCodebase files depth = Inr r"
  then obtain ns ls where a: "forEachFile (fileNodesOf files) depth (map fileNode files, []) files = Inr (ns, ls)"
    and r: "nodes r = ns" "links r = ls"
    by (auto simp: analyzeCodebase_def split: sum.splits)
  have t0: "treeInv (fst (map fileNode files, [])) (snd (map fileNode files, []))"
    by (simp add: treeInv_def fileNode_def filter_empty_conv)
  from forEachFile_tree[OF _ t0 _ a] show ?thesis using r by simp
qed

lemma idRank_node:
  assumes "nodeInv files n"
  shows "idRank (nodeId n) = (if nodeType n = FILE then 0 else if nodeType n = CLASS then 1 else 2)"
    and "nodeType n = FILE \<or> nodeType n = CLASS \<or> nodeType n = FUNCTION"
  using assms
  by (auto simp: nodeInv_def nodeOk_def idRank_def startsWith_def generateId_def)

lemma list_all2_left: "list_all2 P xs ys \<Longrightarrow> x \<in> set xs \<Longrightarrow> \<exists>y \<in> set ys. P x y"
  by (induction rule: list_all2_induct) auto

lemma list_all2_map_eq: "list_all2 (\<lambda>x y. f x = g y) xs ys \<Longrightarrow> map f xs = map g ys"
  by (induction rule: list_all2_induct) auto

lemma contains_links_structure:
  "\<exists>r. analyzeCodebase files depth = Inr r \<and>
     (\<forall>l \<in> set (links r). isContains l \<longrightarrow> containsEdge (nodes r) l) \<and>
     acyclic {(source l, target l) |l. l \<in> set (links r) \<and> isContains l} \<and>
     map target (filter isContains (links r)) = map nodeId (filter (\<lambda>n. nodeType n \<noteq> FILE) (nodes r)) \<and>
     (distinct (map nodeId (nodes r)) \<longrightarrow> distinct (map target (filter isContains (links r))))"
proof -
  obtain r where r: "analyzeCodebase files depth = Inr r"
    and inv: "list_all (nodeInv files) (nodes r)"
    using analyzeCodebase_inv by blast
  have t: "list_all2 (edgeOk (nodes r)) (filter isContains (links r))
             (filter (\<lambda>n. nodeType n \<noteq> FILE) (nodes r))"
    using analyzeCodebase_tree[OF r] by (simp add: treeInv_def)
  have ni: "nodeInv files n" if "n \<in> set (nodes r)" for n
    using inv that by (simp add: list_all_iff)
  have edge: "containsEdge (nodes r) l \<and> idRank (source l) < idRank (target l)"
    if l: "l \<in> set (links r)" "isContains l" for l
  proof -
    from l have "l \<in> set (filter isContains (links r))" by simp
    from list_all2_left[OF t this] obtain n where
      n: "n \<in> set (nodes r)" "nodeType n \<noteq> FILE" "edgeOk (nodes r) l n" by auto
    from n(3) obtain s where s: "s \<in> set (nodes r)" "source l = nodeId s" "target l = nodeId n"
      "nodeType s = FILE \<or> (nodeType s = CLASS \<and> nodeType n = FUNCTION)"
      by (auto simp: edgeOk_def)
    have tn: "nodeType n = CLASS \<or> nodeType n = FUNCTION"
      using idRank_node(2)[OF ni[OF n(1)]] n(2) by simp
    have "containsEdge (nodes r) l" using s n(1) tn unfolding containsEdge_def by blast
    moreover have "idRank (source l) < idRank (target l)"
      using s(2,3,4) tn idRank_node(1)[OF ni[OF n(1)]] idRank_node(1)[OF ni[OF s(1)]] by auto
    ultimately show ?thesis by simp
  qed
  have "{(source l, target l) |l. l \<in> set (links r) \<and> isContains l} \<subseteq> measure idRank"
    using edge by auto
  then have ac: "acyclic {(source l, target l) |l. l \<in> set (links r) \<and> isContains l}"
    using acyclic_subset wf_acyclic wf_measure by blast
  have "list_all2 (\<lambda>l n. target l = nodeId n) (filter isContains (links r))
             (filter (\<lambda>n. nodeType n \<noteq> FILE) (nodes r))"
    using t by (rule list_all2_mono) (simp add: edgeOk_def)
  then have m: "map target (filter isContains (links r)) =
      map nodeId (filter (\<lambda>n. nodeType n \<noteq> FILE) (nodes r))"
    by (rule list_all2_map_eq)
  have d: "distinct (map target (filter isContains (links r)))" if "distinct (map nodeId (nodes r))"
    unfolding m using that by (rule distinct_map_filter)
  show ?thesis using r edge ac m d by blast
qed

subsection \<open>The C and C++ branch\<close>

lemma cLine_ok:
  assumes "index < length lines"
  shows "\<exists>out. cLine fileNodes depth f fileId lines cur index line = Inr out \<and>
           pushedOk fileNodes f fileId lines index out"
  unfolding cLine_def
  by (intro thenDo_ok cClass_ok cFunction_ok cIncludes_ok assms)

lemma cClass_no_function:
  "cClass depth f fileId lines cur index line = Inr (ns, ls, cur') \<Longrightarrow>
   \<forall>n \<in> set ns. nodeType n \<noteq> FUNCTION"
  by (auto simp: cClass_def Let_def split: if_splits option.splits sum.splits)

lemma cFunction_filtered:
  assumes "cFunction depth f fileId lines cur index line = Inr (ns, ls, cur')"
    and "endsWith (trim line) '';'' \<or>
         (\<exists>m k. match line reCFunc = Some m \<and> grp m 1 = Some k \<and> k \<in> set keywordList)"
  shows "ns = []"
  using assms by (auto simp: cFunction_def Let_def split: if_splits option.splits sum.splits)

lemma cIncludes_no_node:
  "cIncludes fileNodes f fileId line cur = Inr (ns, ls, cur') \<Longrightarrow> ns = []"
  by (auto simp: cIncludes_def Let_def split: if_splits option.splits)

lemma cLine_no_function:
  assumes "cLine fileNodes depth f fileId lines cur index line = Inr (ns, ls, cur')"
    and "endsWith (trim line) '';'' \<or>
         (\<exists>m k. match line reCFunc = Some m \<and> grp m 1 = Some k \<and> k \<in> set keywordList)"
  shows "\<forall>n \<in> set ns. nodeType n \<noteq> FUNCTION"
proof -
  from assms(1) obtain ns1 ls1 c1 ns2 ls2 c2 ns3 ls3 c3 where
    a: "cClass depth f fileId lines cur index line = Inr (ns1, ls1, c1)"
    and b: "cFunction depth f fileId lines c1 index line = Inr (ns2, ls2, c2)"
    and c: "cIncludes fileNodes f fileId line c2 = Inr (ns3, ls3, c3)"
    and ns: "ns = (ns1 @ ns2) @ ns3"
    by (auto simp: cLine_def thenDo_def split: sum.splits prod.splits)
  from cFunction_filtered[OF b assms(2)] cIncludes_no_node[OF c] cClass_no_function[OF a] ns
  show ?thesis by simp
qed

lemma processLine_C_CPP:
  "familyOf (path f) = Some C_CPP \<Longrightarrow>
   processLine fileNodes depth f fileId lines cur index line =
     (if trim line = [] then Inr ([], [], cur)
      else cLine fileNodes depth f fileId lines cur index line)"
  by (simp add: processLine_def familyOf_def split: if_splits)

text \<open>The two lines of the specification's example, at any place of any file of the
  family.\<close>

lemma declaration_line:
  "trim ''void f(int x);'' \<noteq> []"
  "match ''void f(int x);'' reCClass = None"
  "match ''void f(int x);'' reCFunc = Some [(1, ''f'')]"
  "endsWith (trim ''void f(int x);'') '';''"
  "match ''void f(int x);'' reCInclude = None"
  by code_simp+

lemma definition_line:
  "trim ''void f(int x) {'' \<noteq> []"
  "match ''void f(int x) {'' reCClass = None"
  "match ''void f(int x) {'' reCFunc = Some [(1, ''f'')]"
  "\<not> endsWith (trim ''void f(int x) {'') '';''"
  "match ''void f(int x) {'' reCInclude = None"
  "grp [(1, ''f'')] 1 = Some ''f''"
  "''f'' \<notin> set keywordList"
  by code_simp+

lemma processLine_declaration:
  assumes "familyOf (path f) = Some C_CPP"
  shows "processLine fileNodes depth f fileId lines cur index ''void f(int x);'' = Inr ([], [], cur)"
  using declaration_line definition_line(6)
  by (simp add: processLine_C_CPP[OF assms] cLine_def thenDo_def cClass_def cFunction_def
      cIncludes_def)

lemma processLine_definition:
  assumes "familyOf (path f) = Some C_CPP" "3 \<le> depth"
  shows "\<exists>e. determineEndLine lines index C_CPP = Inr e \<and>
     processLine fileNodes depth f fileId lines cur index ''void f(int x) {'' =
       Inr ([\<lparr>nodeId = generateId ''FUNCTION'' ''f'' (path f), label = ''f'',
               nodeType = FUNCTION, nodeFile = path f, startLine = index + 1, endLine = e,
               details = ''Function definition in '' @ name f\<rparr>],
            [\<lparr>source = fileId, target = generateId ''FUNCTION'' ''f'' (path f),
               linkType = CONTAINS\<rparr>],
            cur)"
proof -
  obtain e where e: "determineEndLine lines index C_CPP = Inr e"
    by (simp add: determineEndLine_def)
  have d2: "2 \<le> depth" using assms(2) by simp
  show ?thesis
    using definition_line e assms(2) d2
    by (simp add: processLine_C_CPP[OF assms(1)] cLine_def thenDo_def cClass_def cFunction_def
      cIncludes_def endLineOf_def Let_def)
qed

subsection \<open>Evaluations\<close>

lemma includesStr_mid: "includesStr (a @ p @ b) p"
proof -
  have "startsWith (drop (length a) (a @ p @ b)) p" by (simp add: startsWith_def)
  moreover have "length a \<in> set [0..<Suc (length (a @ p @ b))]" by simp
  ultimately show ?thesis unfolding includesStr_def list_ex_iff by blast
qed

lemma showNat_0: "showNat 0 = ''0''"
  by code_simp

lemma tsFiles_result: "analyzeCodebase tsFiles 3 = Inr tsResult"
  by code_simp

section \<open>The properties of the specification\<close>

text \<open>
  C1. The scenario of the specification: \<open>a.py\<close> and \<open>b.py\<close> at depth 3. The graph has
  the two File nodes, the one Class node \<open>A\<close>, the one Function node \<open>m\<close>, whose Contains
  link comes from the Class node and not from the File node of \<open>a.py\<close>, the one Import
  link from the File node of \<open>a.py\<close> to that of \<open>b.py\<close>, and nothing that refers to the
  content of \<open>b.py\<close>.
\<close>

theorem C1_two_file_scenario:
  "analyzeCodebase
     [\<lparr>name = ''a.py'', path = ''a.py'',
       content = ''import b\<newline>class A:\<newline>    def m(self):\<newline>        pass\<newline>''\<rparr>,
      \<lparr>name = ''b.py'', path = ''b.py'', content = ''x = 1\<newline>''\<rparr>] 3 =
   Inr \<lparr>nodes =
         [\<lparr>nodeId = ''FILE:a.py'', label = ''a.py'', nodeType = FILE,
            nodeFile = ''a.py'', startLine = 1, endLine = 5, details = ''File: a.py''\<rparr>,
          \<lparr>nodeId = ''FILE:b.py'', label = ''b.py'', nodeType = FILE,
            nodeFile = ''b.py'', startLine = 1, endLine = 2, details = ''File: b.py''\<rparr>,
          \<lparr>nodeId = ''CLASS:a.py:A'', label = ''A'', nodeType = CLASS,
            nodeFile = ''a.py'', startLine = 2, endLine = 5,
            details = ''Class definition in a.py''\<rparr>,
          \<lparr>nodeId = ''FUNCTION:a.py:m'', label = ''m'', nodeType = FUNCTION,
            nodeFile = ''a.py'', startLine = 3, endLine = 5,
            details = ''Function definition in a.py''\<rparr>],
        links =
         [\<lparr>source = ''FILE:a.py'', target = ''FILE:b.py'', linkType = IMPORT\<rparr>,
          \<lparr>source = ''FILE:a.py'', target = ''CLASS:a.py:A'', linkType = CONTAINS\<rparr>,
          \<lparr>source = ''CLASS:a.py:A'', target = ''FUNCTION:a.py:m'', linkType = CONTAINS\<rparr>],
        summary =
          ''Offline analysis complete (Depth: 3). \<newline>  Scanned 2 files. \<newline>  Identified 1 classes and 1 functions.''\<rparr>"
  by code_simp

text \<open>
  C2. For every file set the run returns at the depths 1, 2 and 3; the node ids of depth
  1 are among those of depth 2, which are among those of depth 3; and the Import links
  are the same multiset at the three depths.
\<close>

theorem C2_depth_monotone:
  "\<exists>r1 r2 r3.
     analyzeCodebase files 1 = Inr r1 \<and> analyzeCodebase files 2 = Inr r2 \<and>
     analyzeCodebase files 3 = Inr r3 \<and>
     nodeId ` set (nodes r1) \<subseteq> nodeId ` set (nodes r2) \<and>
     nodeId ` set (nodes r2) \<subseteq> nodeId ` set (nodes r3) \<and>
     mset (filter isImport (links r1)) = mset (filter isImport (links r2)) \<and>
     mset (filter isImport (links r2)) = mset (filter isImport (links r3))"
proof -
  obtain r1 where r1: "analyzeCodebase files 1 = Inr r1" using analyzeCodebase_inv by blast
  obtain r2 where r2: "analyzeCodebase files 2 = Inr r2" using analyzeCodebase_inv by blast
  obtain r3 where r3: "analyzeCodebase files 3 = Inr r3" using analyzeCodebase_inv by blast
  have a: "set (nodes r1) \<subseteq> set (nodes r2)" "filter isImport (links r1) = filter isImport (links r2)"
    using analyzeCodebase_mono[OF _ r1 r2] by simp_all
  have b: "set (nodes r2) \<subseteq> set (nodes r3)" "filter isImport (links r2) = filter isImport (links r3)"
    using analyzeCodebase_mono[OF _ r2 r3] by simp_all
  have "nodeId ` set (nodes r1) \<subseteq> nodeId ` set (nodes r2)" using a(1) by (rule image_mono)
  moreover have "nodeId ` set (nodes r2) \<subseteq> nodeId ` set (nodes r3)" using b(1) by (rule image_mono)
  moreover have "mset (filter isImport (links r1)) = mset (filter isImport (links r2))"
    by (simp only: a(2))
  moreover have "mset (filter isImport (links r2)) = mset (filter isImport (links r3))"
    by (simp only: b(2))
  ultimately show ?thesis using r1 r2 r3 by blast
qed

text \<open>
  C3. For every file set and every depth the run returns, and every Class and every
  Function node of its graph has \<open>1 \<le> startLine \<le> endLine \<le>\<close> the number of lines of a
  file of the input that has the node's path; when the paths of the input are distinct,
  that is the file named by the node's path.
\<close>

theorem C3_span_within_file:
  "\<exists>r. analyzeCodebase files depth = Inr r \<and>
     (\<forall>n \<in> set (nodes r). nodeType n = CLASS \<or> nodeType n = FUNCTION \<longrightarrow>
        (\<exists>f \<in> set files. path f = nodeFile n \<and> spanWithin n f) \<and>
        (distinct (map path files) \<longrightarrow>
           (\<forall>f \<in> set files. path f = nodeFile n \<longrightarrow> spanWithin n f)))"
proof -
  obtain r where r: "analyzeCodebase files depth = Inr r"
    and inv: "list_all (nodeInv files) (nodes r)"
    using analyzeCodebase_inv by blast
  have "(\<exists>f \<in> set files. path f = nodeFile n \<and> spanWithin n f) \<and>
        (distinct (map path files) \<longrightarrow>
           (\<forall>f \<in> set files. path f = nodeFile n \<longrightarrow> spanWithin n f))"
    if n: "n \<in> set (nodes r)" and ty: "nodeType n = CLASS \<or> nodeType n = FUNCTION" for n
  proof -
    from inv n have "nodeInv files n" by (simp add: list_all_iff)
    with ty obtain f i where f: "f \<in> set files"
      and ok: "nodeOk f (split CHR 0x0A (content f)) i n"
      by (auto simp: nodeInv_def)
    have pf: "path f = nodeFile n" and sp: "spanWithin n f"
      using ok by (auto simp: nodeOk_def spanWithin_def lineCount_def)
    have "spanWithin n g" if d: "distinct (map path files)" and g: "g \<in> set files"
      and pg: "path g = nodeFile n" for g
    proof -
      from d have "inj_on path (set files)" by (simp add: distinct_map)
      moreover have "path g = path f" using pf pg by simp
      ultimately have "g = f" using g f by (rule inj_onD)
      then show ?thesis using sp by simp
    qed
    then show ?thesis using f pf sp by blast
  qed
  then show ?thesis using r by blast
qed

theorem C3_span_within_file_witness:
  "nodeType \<lparr>nodeId = ''FUNCTION:src/x.ts:f'', label = ''f'', nodeType = FUNCTION,
             nodeFile = ''src/x.ts'', startLine = 2, endLine = 3,
             details = ''Function definition in x.ts''\<rparr> = FUNCTION \<and>
   distinct (map path tsFiles) \<and>
   hd tsFiles \<in> set tsFiles \<and>
   spanWithin \<lparr>nodeId = ''FUNCTION:src/x.ts:f'', label = ''f'', nodeType = FUNCTION,
               nodeFile = ''src/x.ts'', startLine = 2, endLine = 3,
               details = ''Function definition in x.ts''\<rparr> (hd tsFiles)"
proof -
  let ?n = "\<lparr>nodeId = ''FUNCTION:src/x.ts:f'', label = ''f'', nodeType = FUNCTION,
             nodeFile = ''src/x.ts'', startLine = 2, endLine = 3,
             details = ''Function definition in x.ts''\<rparr>"
  obtain r where r: "analyzeCodebase tsFiles 3 = Inr r"
    and all: "\<forall>n \<in> set (nodes r). nodeType n = CLASS \<or> nodeType n = FUNCTION \<longrightarrow>
        (\<exists>f \<in> set tsFiles. path f = nodeFile n \<and> spanWithin n f) \<and>
        (distinct (map path tsFiles) \<longrightarrow>
           (\<forall>f \<in> set tsFiles. path f = nodeFile n \<longrightarrow> spanWithin n f))"
    using C3_span_within_file[of tsFiles 3] by blast
  have "r = tsResult" using r tsFiles_result by simp
  then have mem: "?n \<in> set (nodes r)" by (simp add: tsResult_def)
  have d: "distinct (map path tsFiles)" by (simp add: tsFiles_def)
  have h: "hd tsFiles \<in> set tsFiles" "path (hd tsFiles) = nodeFile ?n" by (simp_all add: tsFiles_def)
  from bspec[OF all mem] d h have "spanWithin ?n (hd tsFiles)" by simp
  then show ?thesis using d h by simp
qed

text \<open>
  C4. The indentation strategy, for every list of lines and every start index in range:
  the result is the start index plus one when the start line is entirely white space;
  otherwise it is the index of the first later line that is not blank and whose
  indentation is at most that of the start line, and the number of lines when there is no
  such line (\<open>indentationEnd\<close>). On the four lines of the specification's example, from
  index 0, the result is 3.
\<close>

theorem C4_indentation_strategy:
  "(startIndex < length lines \<longrightarrow>
      determineEndLine lines startIndex PYTHON = Inr (indentationEnd lines startIndex)) \<and>
   determineEndLine [''class A:'', ''    def f():'', ''        pass'', ''class B:''] 0 PYTHON = Inr 3"
proof -
  have "determineEndLine [''class A:'', ''    def f():'', ''        pass'', ''class B:''] 0 PYTHON = Inr 3"
    by code_simp
  then show ?thesis using determineEndLine_PYTHON by blast
qed

theorem C4_indentation_strategy_witness:
  "(1::nat) < length [''if a:'', ''  def f():'', '''', ''    pass'', ''  x = 1''] \<and>
   indentationEnd [''if a:'', ''  def f():'', '''', ''    pass'', ''  x = 1''] 1 = 4 \<and>
   determineEndLine [''if a:'', ''  def f():'', '''', ''    pass'', ''  x = 1''] 1 PYTHON = Inr 4"
proof -
  have h: "(1::nat) < length [''if a:'', ''  def f():'', '''', ''    pass'', ''  x = 1'']" by simp
  have e: "indentationEnd [''if a:'', ''  def f():'', '''', ''    pass'', ''  x = 1''] 1 = 4"
    by code_simp
  from C4_indentation_strategy[of 1 "[''if a:'', ''  def f():'', '''', ''    pass'', ''  x = 1'']"] h
  have "determineEndLine [''if a:'', ''  def f():'', '''', ''    pass'', ''  x = 1''] 1 PYTHON =
        Inr (indentationEnd [''if a:'', ''  def f():'', '''', ''    pass'', ''  x = 1''] 1)"
    by blast
  then show ?thesis using h e by simp
qed

text \<open>
  C5. The brace strategy (every family but the indentation one), for every list of lines
  and every start index: scanning from the start line with \<open>+1\<close> for each opening and
  \<open>-1\<close> for each closing brace, the result is the index plus one of the first line at
  which an opening brace has been seen and the balance is at most 0, and
  \<open>min (startIndex + 20) lineCount\<close> when the input ends without such a line
  (\<open>braceEnd\<close>). On the five lines of the specification's example, from index 0, the result
  is 4.
\<close>

theorem C5_brace_strategy:
  "(type \<noteq> PYTHON \<longrightarrow>
      determineEndLine lines startIndex type = Inr (braceEnd lines startIndex)) \<and>
   determineEndLine [''void f() {'', ''  if (x) {'', ''  }'', ''}'', ''void g() {}''] 0 JS = Inr 4"
proof -
  have "determineEndLine [''void f() {'', ''  if (x) {'', ''  }'', ''}'', ''void g() {}''] 0 JS = Inr 4"
    by code_simp
  then show ?thesis using determineEndLine_brace by blast
qed

theorem C5_brace_strategy_witness:
  "C_CPP \<noteq> PYTHON \<and>
   braceEnd [''int x;'', ''void g()'', ''{'', ''}'', ''int y;''] 1 = 4 \<and>
   determineEndLine [''int x;'', ''void g()'', ''{'', ''}'', ''int y;''] 1 C_CPP = Inr 4 \<and>
   braceEnd [''int x;'', ''int y;''] 0 = 2 \<and>
   determineEndLine [''int x;'', ''int y;''] 0 C_CPP = Inr 2"
proof -
  have h: "C_CPP \<noteq> PYTHON" by simp
  have e: "braceEnd [''int x;'', ''void g()'', ''{'', ''}'', ''int y;''] 1 = 4"
    "braceEnd [''int x;'', ''int y;''] 0 = 2"
    by code_simp+
  from C5_brace_strategy[of C_CPP "[''int x;'', ''void g()'', ''{'', ''}'', ''int y;'']" 1] h
  have a: "determineEndLine [''int x;'', ''void g()'', ''{'', ''}'', ''int y;''] 1 C_CPP =
        Inr (braceEnd [''int x;'', ''void g()'', ''{'', ''}'', ''int y;''] 1)"
    by blast
  from C5_brace_strategy[of C_CPP "[''int x;'', ''int y;'']" 0] h
  have b: "determineEndLine [''int x;'', ''int y;''] 0 C_CPP = Inr (braceEnd [''int x;'', ''int y;''] 0)"
    by blast
  show ?thesis using h e a b by simp
qed

text \<open>
  C6. For a file of the C and C++ family the callback returns for every line of the
  file, and pushes no Function node for a line whose trimmed text ends with a semicolon
  or whose captured name is one of the nine keywords, at depth 3 and at any other depth.
  At every place of every file of the family the line \<open>void f(int x);\<close> pushes nothing,
  and at every depth from 3 on the line \<open>void f(int x) {\<close> pushes the one Function node
  \<open>f\<close>, with its Contains link from the file. The file \<open>x.c\<close> with the one line
  \<open>void f(int x);\<close> gives no Function node at depth 3, and with the one line
  \<open>void f(int x) {\<close> it gives the Function node \<open>f\<close>.
\<close>

theorem C6_declaration_filter:
  "(index < length lines \<and> familyOf (path f) = Some C_CPP \<longrightarrow>
      (\<exists>ns ls cur'.
         processLine fileNodes depth f fileId lines cur index line = Inr (ns, ls, cur') \<and>
         (endsWith (trim line) '';'' \<or>
          (\<exists>m k. match line reCFunc = Some m \<and> grp m 1 = Some k \<and> k \<in> set keywordList) \<longrightarrow>
          (\<forall>n \<in> set ns. nodeType n \<noteq> FUNCTION)))) \<and>
   (familyOf (path f) = Some C_CPP \<longrightarrow>
      processLine fileNodes depth f fileId lines cur index ''void f(int x);'' =
        Inr ([], [], cur)) \<and>
   (familyOf (path f) = Some C_CPP \<and> 3 \<le> depth \<longrightarrow>
      (\<exists>e. determineEndLine lines index C_CPP = Inr e \<and>
         processLine fileNodes depth f fileId lines cur index ''void f(int x) {'' =
           Inr ([\<lparr>nodeId = generateId ''FUNCTION'' ''f'' (path f), label = ''f'',
                   nodeType = FUNCTION, nodeFile = path f, startLine = index + 1,
                   endLine = e, details = ''Function definition in '' @ name f\<rparr>],
                [\<lparr>source = fileId, target = generateId ''FUNCTION'' ''f'' (path f),
                   linkType = CONTAINS\<rparr>],
                cur))) \<and>
   analyzeCodebase [\<lparr>name = ''x.c'', path = ''x.c'', content = ''void f(int x);''\<rparr>] 3 =
     Inr \<lparr>nodes =
           [\<lparr>nodeId = ''FILE:x.c'', label = ''x.c'', nodeType = FILE, nodeFile = ''x.c'',
              startLine = 1, endLine = 1, details = ''File: x.c''\<rparr>],
          links = [],
          summary =
            ''Offline analysis complete (Depth: 3). \<newline>  Scanned 1 files. \<newline>  Identified 0 classes and 0 functions.''\<rparr> \<and>
   analyzeCodebase [\<lparr>name = ''x.c'', path = ''x.c'', content = ''void f(int x) {''\<rparr>] 3 =
     Inr \<lparr>nodes =
           [\<lparr>nodeId = ''FILE:x.c'', label = ''x.c'', nodeType = FILE, nodeFile = ''x.c'',
              startLine = 1, endLine = 1, details = ''File: x.c''\<rparr>,
            \<lparr>nodeId = ''FUNCTION:x.c:f'', label = ''f'', nodeType = FUNCTION, nodeFile = ''x.c'',
              startLine = 1, endLine = 1, details = ''Function definition in x.c''\<rparr>],
          links = [\<lparr>source = ''FILE:x.c'', target = ''FUNCTION:x.c:f'', linkType = CONTAINS\<rparr>],
          summary =
            ''Offline analysis complete (Depth: 3). \<newline>  Scanned 1 files. \<newline>  Identified 0 classes and 1 functions.''\<rparr>"
proof (intro conjI impI)
  assume a: "index < length lines \<and> familyOf (path f) = Some C_CPP"
  then have idx: "index < length lines" and fam: "familyOf (path f) = Some C_CPP" by simp_all
  show "\<exists>ns ls cur'.
         processLine fileNodes depth f fileId lines cur index line = Inr (ns, ls, cur') \<and>
         (endsWith (trim line) '';'' \<or>
          (\<exists>m k. match line reCFunc = Some m \<and> grp m 1 = Some k \<and> k \<in> set keywordList) \<longrightarrow>
          (\<forall>n \<in> set ns. nodeType n \<noteq> FUNCTION))"
  proof (cases "trim line = []")
    case True
    then have "processLine fileNodes depth f fileId lines cur index line = Inr ([], [], cur)"
      by (simp add: processLine_def)
    then show ?thesis by simp
  next
    case False
    from cLine_ok[OF idx, of fileNodes depth f fileId cur line] obtain ns ls cur' where
      r: "cLine fileNodes depth f fileId lines cur index line = Inr (ns, ls, cur')"
      by (metis prod_cases3)
    have "processLine fileNodes depth f fileId lines cur index line = Inr (ns, ls, cur')"
      using processLine_C_CPP[OF fam] False r by simp
    then show ?thesis using cLine_no_function[OF r] by blast
  qed
next
  assume "familyOf (path f) = Some C_CPP"
  then show "processLine fileNodes depth f fileId lines cur index ''void f(int x);'' =
        Inr ([], [], cur)"
    by (rule processLine_declaration)
next
  assume "familyOf (path f) = Some C_CPP \<and> 3 \<le> depth"
  then show "\<exists>e. determineEndLine lines index C_CPP = Inr e \<and>
         processLine fileNodes depth f fileId lines cur index ''void f(int x) {'' =
           Inr ([\<lparr>nodeId = generateId ''FUNCTION'' ''f'' (path f), label = ''f'',
                   nodeType = FUNCTION, nodeFile = path f, startLine = index + 1,
                   endLine = e, details = ''Function definition in '' @ name f\<rparr>],
                [\<lparr>source = fileId, target = generateId ''FUNCTION'' ''f'' (path f),
                   linkType = CONTAINS\<rparr>],
                cur)"
    using processLine_definition[of f depth lines index fileNodes fileId cur] by blast
qed code_simp+

theorem C6_declaration_filter_witness:
  "(0::nat) < length [''struct S { int f(int x); };'', ''  else if (x) {''] \<and>
   familyOf (path \<lparr>name = ''s.h'', path = ''inc/s.h'', content = []\<rparr>) = Some C_CPP \<and>
   endsWith (trim ''struct S { int f(int x); };'') '';'' \<and>
   processLine [] 3 \<lparr>name = ''s.h'', path = ''inc/s.h'', content = []\<rparr> ''FILE:inc/s.h''
     [''struct S { int f(int x); };'', ''  else if (x) {''] None 0 ''struct S { int f(int x); };'' =
     Inr ([\<lparr>nodeId = ''CLASS:inc/s.h:S'', label = ''S'', nodeType = CLASS, nodeFile = ''inc/s.h'',
             startLine = 1, endLine = 1, details = ''Class/Struct definition in s.h''\<rparr>],
          [\<lparr>source = ''FILE:inc/s.h'', target = ''CLASS:inc/s.h:S'', linkType = CONTAINS\<rparr>], None) \<and>
   nodeType \<lparr>nodeId = ''CLASS:inc/s.h:S'', label = ''S'', nodeType = CLASS, nodeFile = ''inc/s.h'',
             startLine = 1, endLine = 1, details = ''Class/Struct definition in s.h''\<rparr> \<noteq> FUNCTION \<and>
   match ''  else if (x) {'' reCFunc = Some [(1, ''if'')] \<and>
   grp [(1, ''if'')] 1 = Some ''if'' \<and> ''if'' \<in> set keywordList \<and>
   processLine [] 3 \<lparr>name = ''s.h'', path = ''inc/s.h'', content = []\<rparr> ''FILE:inc/s.h''
     [''struct S { int f(int x); };'', ''  else if (x) {''] None 1 ''  else if (x) {'' =
     Inr ([], [], None) \<and>
   (3::int) \<le> 4 \<and>
   processLine [] 4 \<lparr>name = ''s.h'', path = ''inc/s.h'', content = []\<rparr> ''FILE:inc/s.h''
     [''int y;'', ''void f(int x);'', ''void f(int x) {'', ''  y = x;'', ''}''] None 1
     ''void f(int x);'' = Inr ([], [], None) \<and>
   determineEndLine [''int y;'', ''void f(int x);'', ''void f(int x) {'', ''  y = x;'', ''}''] 2
     C_CPP = Inr 5 \<and>
   processLine [] 4 \<lparr>name = ''s.h'', path = ''inc/s.h'', content = []\<rparr> ''FILE:inc/s.h''
     [''int y;'', ''void f(int x);'', ''void f(int x) {'', ''  y = x;'', ''}''] None 2
     ''void f(int x) {'' =
     Inr ([\<lparr>nodeId = ''FUNCTION:inc/s.h:f'', label = ''f'', nodeType = FUNCTION,
             nodeFile = ''inc/s.h'', startLine = 3, endLine = 5,
             details = ''Function definition in s.h''\<rparr>],
          [\<lparr>source = ''FILE:inc/s.h'', target = ''FUNCTION:inc/s.h:f'', linkType = CONTAINS\<rparr>],
          None)"
proof -
  let ?l0 = "''struct S { int f(int x); };''"
  let ?l1 = "''  else if (x) {''"
  let ?f = "\<lparr>name = ''s.h'', path = ''inc/s.h'', content = []\<rparr>"
  let ?n = "\<lparr>nodeId = ''CLASS:inc/s.h:S'', label = ''S'', nodeType = CLASS, nodeFile = ''inc/s.h'',
             startLine = 1, endLine = 1, details = ''Class/Struct definition in s.h''\<rparr>"
  let ?L = "[''int y;'', ''void f(int x);'', ''void f(int x) {'', ''  y = x;'', ''}'']"
  have h: "(0::nat) < length [?l0, ?l1]" "(1::nat) < length [?l0, ?l1]" by simp_all
  have fam: "familyOf (path ?f) = Some C_CPP" by code_simp
  have s: "endsWith (trim ?l0) '';''" by code_simp
  have k: "match ?l1 reCFunc = Some [(1, ''if'')]" "grp [(1, ''if'')] 1 = Some ''if''"
    "''if'' \<in> set keywordList"
    by code_simp+
  have e0: "processLine [] 3 ?f ''FILE:inc/s.h'' [?l0, ?l1] None 0 ?l0 =
     Inr ([?n], [\<lparr>source = ''FILE:inc/s.h'', target = ''CLASS:inc/s.h:S'', linkType = CONTAINS\<rparr>], None)"
    by code_simp
  from C6_declaration_filter[of 0 "[?l0, ?l1]" ?f "[]" 3 "''FILE:inc/s.h''" None ?l0] h(1) fam
  obtain ns ls cur' where
    r: "processLine [] 3 ?f ''FILE:inc/s.h'' [?l0, ?l1] None 0 ?l0 = Inr (ns, ls, cur')"
    and c: "endsWith (trim ?l0) '';'' \<or>
          (\<exists>m k. match ?l0 reCFunc = Some m \<and> grp m 1 = Some k \<and> k \<in> set keywordList) \<longrightarrow>
          (\<forall>n \<in> set ns. nodeType n \<noteq> FUNCTION)"
    by blast
  from r e0 have "ns = [?n]" by simp
  with c s have n0: "nodeType ?n \<noteq> FUNCTION" by simp
  from C6_declaration_filter[of 1 "[?l0, ?l1]" ?f "[]" 3 "''FILE:inc/s.h''" None ?l1] h(2) fam
  obtain ns1 ls1 cur1 where
    r1: "processLine [] 3 ?f ''FILE:inc/s.h'' [?l0, ?l1] None 1 ?l1 = Inr (ns1, ls1, cur1)"
    and c1: "endsWith (trim ?l1) '';'' \<or>
          (\<exists>m k. match ?l1 reCFunc = Some m \<and> grp m 1 = Some k \<and> k \<in> set keywordList) \<longrightarrow>
          (\<forall>n \<in> set ns1. nodeType n \<noteq> FUNCTION)"
    by blast
  from c1 k have nf: "\<forall>n \<in> set ns1. nodeType n \<noteq> FUNCTION" by blast
  have e1: "processLine [] 3 ?f ''FILE:inc/s.h'' [?l0, ?l1] None 1 ?l1 = Inr ([], [], None)"
    by code_simp
  have d: "(3::int) \<le> 4" by simp
  from C6_declaration_filter[of 1 ?L ?f "[]" 4 "''FILE:inc/s.h''" None] fam
  have g1: "processLine [] 4 ?f ''FILE:inc/s.h'' ?L None 1 ''void f(int x);'' = Inr ([], [], None)"
    by blast
  have ev: "determineEndLine ?L 2 C_CPP = Inr 5" by code_simp
  from C6_declaration_filter[of 2 ?L ?f "[]" 4 "''FILE:inc/s.h''" None] fam d
  obtain e where e: "determineEndLine ?L 2 C_CPP = Inr e"
    and g2: "processLine [] 4 ?f ''FILE:inc/s.h'' ?L None 2 ''void f(int x) {'' =
       Inr ([\<lparr>nodeId = generateId ''FUNCTION'' ''f'' (path ?f), label = ''f'',
               nodeType = FUNCTION, nodeFile = path ?f, startLine = 2 + 1, endLine = e,
               details = ''Function definition in '' @ name ?f\<rparr>],
            [\<lparr>source = ''FILE:inc/s.h'', target = generateId ''FUNCTION'' ''f'' (path ?f),
               linkType = CONTAINS\<rparr>],
            None)"
    by blast
  from e ev have "e = 5" by simp
  with g2 have g2': "processLine [] 4 ?f ''FILE:inc/s.h'' ?L None 2 ''void f(int x) {'' =
     Inr ([\<lparr>nodeId = ''FUNCTION:inc/s.h:f'', label = ''f'', nodeType = FUNCTION,
             nodeFile = ''inc/s.h'', startLine = 3, endLine = 5,
             details = ''Function definition in s.h''\<rparr>],
          [\<lparr>source = ''FILE:inc/s.h'', target = ''FUNCTION:inc/s.h:f'', linkType = CONTAINS\<rparr>],
          None)"
    by (simp add: generateId_def)
  show ?thesis using h(1) fam s e0 n0 k e1 d g1 ev g2' by blast
qed

text \<open>
  C7. In a Python file with two classes that each define a method \<open>run\<close>, the two
  Function nodes get the one id \<open>FUNCTION:a.py:run\<close>, and that id has two incoming
  Contains links, one from each class: with ids taken for nodes the Contains links are
  not a forest. (By \<open>contains_links_structure\<close> every Contains link does go from a File
  to a Class or Function node or from a Class to a Function node, the links have no
  cycle, and an id has two incoming links only when two nodes share it.)
\<close>

theorem C7_two_parents_for_one_id:
  "analyzeCodebase
     [\<lparr>name = ''a.py'', path = ''a.py'',
       content = ''class A:\<newline>    def run(self):\<newline>        pass\<newline>class B:\<newline>    def run(self):\<newline>        pass''\<rparr>] 3 =
   Inr \<lparr>nodes =
         [\<lparr>nodeId = ''FILE:a.py'', label = ''a.py'', nodeType = FILE,
            nodeFile = ''a.py'', startLine = 1, endLine = 6, details = ''File: a.py''\<rparr>,
          \<lparr>nodeId = ''CLASS:a.py:A'', label = ''A'', nodeType = CLASS,
            nodeFile = ''a.py'', startLine = 1, endLine = 3,
            details = ''Class definition in a.py''\<rparr>,
          \<lparr>nodeId = ''FUNCTION:a.py:run'', label = ''run'', nodeType = FUNCTION,
            nodeFile = ''a.py'', startLine = 2, endLine = 3,
            details = ''Function definition in a.py''\<rparr>,
          \<lparr>nodeId = ''CLASS:a.py:B'', label = ''B'', nodeType = CLASS,
            nodeFile = ''a.py'', startLine = 4, endLine = 6,
            details = ''Class definition in a.py''\<rparr>,
          \<lparr>nodeId = ''FUNCTION:a.py:run'', label = ''run'', nodeType = FUNCTION,
            nodeFile = ''a.py'', startLine = 5, endLine = 6,
            details = ''Function definition in a.py''\<rparr>],
        links =
         [\<lparr>source = ''FILE:a.py'', target = ''CLASS:a.py:A'', linkType = CONTAINS\<rparr>,
          \<lparr>source = ''CLASS:a.py:A'', target = ''FUNCTION:a.py:run'', linkType = CONTAINS\<rparr>,
          \<lparr>source = ''FILE:a.py'', target = ''CLASS:a.py:B'', linkType = CONTAINS\<rparr>,
          \<lparr>source = ''CLASS:a.py:B'', target = ''FUNCTION:a.py:run'', linkType = CONTAINS\<rparr>],
        summary =
          ''Offline analysis complete (Depth: 3). \<newline>  Scanned 1 files. \<newline>  Identified 2 classes and 2 functions.''\<rparr>"
  by code_simp

text \<open>
  C8, as the code has it. The id of a File node is \<open>FILE:\<close> followed by the path alone:
  for the one empty file \<open>src/a.py\<close> named \<open>a.py\<close> it is \<open>FILE:src/a.py\<close>, and the
  string built from kind, path and label is \<open>FILE:src/a.py:a.py\<close>.
\<close>

theorem C8_file_id_counterexample:
  "analyzeCodebase [\<lparr>name = ''a.py'', path = ''src/a.py'', content = ''''\<rparr>] 3 =
     Inr \<lparr>nodes =
           [\<lparr>nodeId = ''FILE:src/a.py'', label = ''a.py'', nodeType = FILE,
              nodeFile = ''src/a.py'', startLine = 1, endLine = 1,
              details = ''File: src/a.py''\<rparr>],
          links = [],
          summary =
            ''Offline analysis complete (Depth: 3). \<newline>  Scanned 1 files. \<newline>  Identified 0 classes and 0 functions.''\<rparr> \<and>
   generateId (nodeTypeStr FILE) ''a.py'' ''src/a.py'' = ''FILE:src/a.py:a.py'' \<and>
   ''FILE:src/a.py'' \<noteq> generateId (nodeTypeStr FILE) ''a.py'' ''src/a.py''"
  by code_simp

text \<open>
  C8, amended. For every file set and every depth the run returns, and in its graph the
  id of every Class and every Function node is the string \<open>kind:filePath:label\<close> built
  from the node's kind, the path of its file and its label, and the id of every File
  node is \<open>FILE:\<close> followed by the path of its file.
\<close>

theorem C8_node_ids:
  "\<exists>r. analyzeCodebase files depth = Inr r \<and>
     (\<forall>n \<in> set (nodes r).
        (nodeType n = FILE \<longrightarrow> nodeId n = ''FILE:'' @ nodeFile n) \<and>
        (nodeType n \<noteq> FILE \<longrightarrow>
           nodeId n = generateId (nodeTypeStr (nodeType n)) (label n) (nodeFile n)))"
proof -
  obtain r where r: "analyzeCodebase files depth = Inr r"
    and inv: "list_all (nodeInv files) (nodes r)"
    using analyzeCodebase_inv by blast
  have "(nodeType n = FILE \<longrightarrow> nodeId n = ''FILE:'' @ nodeFile n) \<and>
        (nodeType n \<noteq> FILE \<longrightarrow>
           nodeId n = generateId (nodeTypeStr (nodeType n)) (label n) (nodeFile n))"
    if "n \<in> set (nodes r)" for n
  proof -
    from inv that have "nodeInv files n" by (simp add: list_all_iff)
    then show ?thesis by (auto simp: nodeInv_def nodeOk_def)
  qed
  then show ?thesis using r by blast
qed

theorem C8_node_ids_witness:
  "nodeType \<lparr>nodeId = ''CLASS:src/y.ts:Y'', label = ''Y'', nodeType = CLASS,
             nodeFile = ''src/y.ts'', startLine = 1, endLine = 1,
             details = ''Class definition in y.ts''\<rparr> \<noteq> FILE \<and>
   generateId ''CLASS'' ''Y'' ''src/y.ts'' = ''CLASS:src/y.ts:Y'' \<and>
   nodeType \<lparr>nodeId = ''FILE:src/y.ts'', label = ''y.ts'', nodeType = FILE,
             nodeFile = ''src/y.ts'', startLine = 1, endLine = 1,
             details = ''File: src/y.ts''\<rparr> = FILE \<and>
   ''FILE:src/y.ts'' = ''FILE:'' @ ''src/y.ts''"
proof -
  let ?c = "\<lparr>nodeId = ''CLASS:src/y.ts:Y'', label = ''Y'', nodeType = CLASS,
             nodeFile = ''src/y.ts'', startLine = 1, endLine = 1,
             details = ''Class definition in y.ts''\<rparr>"
  let ?f = "\<lparr>nodeId = ''FILE:src/y.ts'', label = ''y.ts'', nodeType = FILE,
             nodeFile = ''src/y.ts'', startLine = 1, endLine = 1,
             details = ''File: src/y.ts''\<rparr>"
  obtain r where r: "analyzeCodebase tsFiles 3 = Inr r"
    and all: "\<forall>n \<in> set (nodes r).
        (nodeType n = FILE \<longrightarrow> nodeId n = ''FILE:'' @ nodeFile n) \<and>
        (nodeType n \<noteq> FILE \<longrightarrow>
           nodeId n = generateId (nodeTypeStr (nodeType n)) (label n) (nodeFile n))"
    using C8_node_ids[of tsFiles 3] by blast
  have "r = tsResult" using r tsFiles_result by simp
  then have mem: "?c \<in> set (nodes r)" "?f \<in> set (nodes r)" by (simp_all add: tsResult_def)
  from bspec[OF all mem(1)]
  have "nodeId ?c = generateId (nodeTypeStr (nodeType ?c)) (label ?c) (nodeFile ?c)"
    by simp
  moreover from bspec[OF all mem(2)] have "nodeId ?f = ''FILE:'' @ nodeFile ?f" by simp
  ultimately show ?thesis by simp
qed

text \<open>
  C9. For the empty file set and any integer depth the run returns, with no node, no
  link, and a summary that contains \<open>Scanned 0 files.\<close>: the summary is the fixed text
  around what the source language prints for the depth, whatever that is.
\<close>

theorem C9_empty_file_set:
  "\<exists>r. analyzeCodebase [] depth = Inr r \<and> nodes r = [] \<and> links r = [] \<and>
     includesStr (summary r) ''Scanned 0 files.'' \<and>
     (\<exists>d. summary r =
        ''Offline analysis complete (Depth: '' @ d @
        ''). \<newline>  Scanned 0 files. \<newline>  Identified 0 classes and 0 functions.'')"
proof -
  let ?pre = "''Offline analysis complete (Depth: '' @ showInt depth @ ''). \<newline>  ''"
  let ?post = "'' \<newline>  Identified 0 classes and 0 functions.''"
  let ?r = "\<lparr>nodes = [], links = [], summary = ?pre @ ''Scanned 0 files.'' @ ?post\<rparr>"
  have r: "analyzeCodebase [] depth = Inr ?r"
    by (simp add: analyzeCodebase_def fileNodesOf_def summaryOf_def showNat_0)
  have i: "includesStr (summary ?r) ''Scanned 0 files.''"
    unfolding select_convs by (rule includesStr_mid)
  have "summary ?r = ''Offline analysis complete (Depth: '' @ showInt depth @
            ''). \<newline>  Scanned 0 files. \<newline>  Identified 0 classes and 0 functions.''"
    by simp
  then show ?thesis using r i by (intro exI[of _ ?r]) auto
qed

text \<open>
  C10. For every file set and every depth the run returns, and no Import link of its
  graph has its source equal to its target.
\<close>

theorem C10_no_self_import:
  "\<exists>r. analyzeCodebase files depth = Inr r \<and>
     (\<forall>l \<in> set (links r). linkType l = IMPORT \<longrightarrow> source l \<noteq> target l)"
proof -
  obtain r where r: "analyzeCodebase files depth = Inr r"
    and inv: "list_all (linkInv files) (links r)"
    using analyzeCodebase_inv by blast
  have "source l \<noteq> target l" if l: "l \<in> set (links r)" and ty: "linkType l = IMPORT" for l
  proof -
    from inv l have "linkInv files l" by (simp add: list_all_iff)
    with ty obtain f where io: "importOk (fileNodesOf files) f (''FILE:'' @ path f) l"
      by (auto simp: linkInv_def)
    then have src: "source l = ''FILE:'' @ path f" by (simp add: importOk_def)
    from io obtain p where p: "(p, target l) \<in> set (fileNodesOf files)" "p \<noteq> path f"
      by (auto simp: importOk_def list_ex_iff)
    have "target l = ''FILE:'' @ p" using fileNodesOf_values[OF p(1)] .
    then show ?thesis using src p(2) by simp
  qed
  then show ?thesis using r by blast
qed

theorem C10_no_self_import_witness:
  "linkType \<lparr>source = ''FILE:src/x.ts'', target = ''FILE:src/y.ts'', linkType = IMPORT\<rparr> = IMPORT \<and>
   source \<lparr>source = ''FILE:src/x.ts'', target = ''FILE:src/y.ts'', linkType = IMPORT\<rparr> \<noteq>
   target \<lparr>source = ''FILE:src/x.ts'', target = ''FILE:src/y.ts'', linkType = IMPORT\<rparr>"
proof -
  let ?l = "\<lparr>source = ''FILE:src/x.ts'', target = ''FILE:src/y.ts'', linkType = IMPORT\<rparr>"
  obtain r where r: "analyzeCodebase tsFiles 3 = Inr r"
    and all: "\<forall>l \<in> set (links r). linkType l = IMPORT \<longrightarrow> source l \<noteq> target l"
    using C10_no_self_import[of tsFiles 3] by blast
  have "r = tsResult" using r tsFiles_result by simp
  then have mem: "?l \<in> set (links r)" by (simp add: tsResult_def)
  from bspec[OF all mem] have "source ?l \<noteq> target ?l" by simp
  then show ?thesis by simp
qed

end
